theory Spec2Isabelle
  imports Main "HOL-Library.Word"
begin

unbundle bit_operations_syntax

section \<open>Core types and constants (types.h)\<close>

text \<open>
  Pieces, squares, sides and scores are C++ \<open>int\<close>s and are modelled as \<open>int\<close>; no
  arithmetic on them comes near the 32-bit range. The Zobrist hash is a \<open>uint64_t\<close> and
  is a \<open>64 word\<close>. The fields of \<open>Move\<close> are 8-bit: the constructor \<open>Move(f,t,cap,promo,fl)\<close>
  narrows its \<open>int\<close> arguments, which \<open>mk_move\<close> writes out with \<open>u8\<close> and \<open>s8\<close>.
\<close>

definition PT_NONE :: int where "PT_NONE = 0"
definition PT_PAWN :: int where "PT_PAWN = 1"
definition PT_KNIGHT :: int where "PT_KNIGHT = 2"
definition PT_BISHOP :: int where "PT_BISHOP = 3"
definition PT_ROOK :: int where "PT_ROOK = 4"
definition PT_QUEEN :: int where "PT_QUEEN = 5"
definition PT_KING :: int where "PT_KING = 6"

definition W_PAWN :: int where "W_PAWN = 1"
definition W_KING :: int where "W_KING = 6"
definition B_PAWN :: int where "B_PAWN = -1"
definition B_KING :: int where "B_KING = -6"

definition WHITE_SIDE :: int where "WHITE_SIDE = 0"
definition BLACK_SIDE :: int where "BLACK_SIDE = 1"

definition sq_file :: "int \<Rightarrow> int" where "sq_file s = s AND 7"
definition sq_rank :: "int \<Rightarrow> int" where "sq_rank s = drop_bit 3 s"
definition make_sq :: "int \<Rightarrow> int \<Rightarrow> int" where "make_sq f r = push_bit 3 r OR f"
definition mirror_sq :: "int \<Rightarrow> int" where "mirror_sq s = s XOR 56"

definition piece_type :: "int \<Rightarrow> int" where "piece_type p = (if p > 0 then p else - p)"
definition piece_side :: "int \<Rightarrow> int" where
  "piece_side p = (if p > 0 then WHITE_SIDE else BLACK_SIDE)"
definition piece_sign :: "int \<Rightarrow> int" where
  "piece_sign sd = (if sd = WHITE_SIDE then 1 else -1)"

definition FL_NONE :: int where "FL_NONE = 0"
definition FL_CASTLE :: int where "FL_CASTLE = 1"
definition FL_EP :: int where "FL_EP = 2"
definition FL_DOUBLE :: int where "FL_DOUBLE = 4"

definition u8 :: "int \<Rightarrow> int" where "u8 x = x mod 256"
definition s8 :: "int \<Rightarrow> int" where "s8 x = (x + 128) mod 256 - 128"

record Move =
  mfrom :: int
  mto :: int
  captured :: int
  promotion :: int
  flags :: int

definition mk_move :: "int \<Rightarrow> int \<Rightarrow> int \<Rightarrow> int \<Rightarrow> int \<Rightarrow> Move" where
  "mk_move f t cap promo fl =
     \<lparr>mfrom = u8 f, mto = u8 t, captured = s8 cap, promotion = s8 promo, flags = u8 fl\<rparr>"

definition null_Move :: Move where "null_Move = mk_move 0 0 0 0 0"

text \<open>\<open>Move::operator==\<close> compares origin, destination and promotion only.\<close>

definition move_eq :: "Move \<Rightarrow> Move \<Rightarrow> bool" where
  "move_eq a c \<longleftrightarrow> mfrom a = mfrom c \<and> mto a = mto c \<and> promotion a = promotion c"

definition is_null :: "Move \<Rightarrow> bool" where "is_null m \<longleftrightarrow> mfrom m = mto m"

record UndoInfo =
  u_castling :: int
  u_ep_square :: int
  u_halfmove :: int
  u_hash :: "64 word"

definition MAX_MOVES :: int where "MAX_MOVES = 256"
definition MAX_PLY :: int where "MAX_PLY = 128"
definition INF_SCORE :: int where "INF_SCORE = 100000"
definition MATE_SCORE :: int where "MATE_SCORE = 99000"

definition PIECE_VAL :: "int list" where
  "PIECE_VAL = [0, 100, 320, 330, 500, 900, 20000]"

definition KNIGHT_DIRS :: "int list" where "KNIGHT_DIRS = [17, 15, 10, 6, -6, -10, -15, -17]"
definition BISHOP_DIRS :: "int list" where "BISHOP_DIRS = [9, 7, -7, -9]"
definition ROOK_DIRS :: "int list" where "ROOK_DIRS = [8, 1, -1, -8]"
definition KING_DIRS :: "int list" where "KING_DIRS = [1, -1, 8, -8, 9, 7, -7, -9]"

section \<open>Zobrist keys (board.cpp)\<close>

text \<open>
  \<open>init_zobrist\<close> fills the static tables once from the fixed seed, calling \<open>xorshift64\<close>
  for \<open>Z_PIECE[0..12][0..63]\<close>, then \<open>Z_SIDE\<close>, then \<open>Z_CASTLE[0..15]\<close>, then \<open>Z_EP[0..7]\<close>.
  The k-th call returns the generator state after k steps, so each table entry is a
  fixed element of that sequence.
\<close>

definition xorshift64 :: "64 word \<Rightarrow> 64 word" where
  "xorshift64 s0 =
     (let s1 = s0 XOR push_bit 13 s0;
          s2 = s1 XOR drop_bit 7 s1;
          s3 = s2 XOR push_bit 17 s2
      in s3)"

fun zobrist_seq :: "nat \<Rightarrow> 64 word" where
  "zobrist_seq 0 = 0x12345678ABCDEF01"
| "zobrist_seq (Suc k) = xorshift64 (zobrist_seq k)"

definition Z_PIECE :: "int \<Rightarrow> int \<Rightarrow> 64 word" where
  "Z_PIECE p s = zobrist_seq (Suc (nat (p * 64 + s)))"
definition Z_SIDE :: "64 word" where
  "Z_SIDE = zobrist_seq 833"
definition Z_CASTLE :: "int \<Rightarrow> 64 word" where
  "Z_CASTLE i = zobrist_seq (834 + nat i)"
definition Z_EP :: "int \<Rightarrow> 64 word" where
  "Z_EP i = zobrist_seq (850 + nat i)"

definition piece_index :: "int \<Rightarrow> int" where
  "piece_index p = (if p > 0 then p else if p < 0 then 6 + (- p) else 0)"

section \<open>Board state (board.h)\<close>

text \<open>
  \<open>board\<close> is the 64-cell mailbox, \<open>king_sq\<close> the two-cell array of king squares and
  \<open>pos_history\<close> the \<open>MAX_HISTORY\<close>-cell buffer with its fill count. A cell is read with
  \<open>!\<close> and written with list update at \<open>nat\<close> of the C++ index; the source reads and
  writes these arrays unchecked, so an index outside the array is undefined behaviour
  there, and every theorem below that depends on such an access carries the invariant
  that keeps it in range.
\<close>

definition MAX_HISTORY :: int where "MAX_HISTORY = 1024"

record Board =
  board :: "int list"
  side :: int
  castling :: int
  ep_square :: int
  halfmove :: int
  fullmove :: int
  hash :: "64 word"
  king_sq :: "int list"
  pos_history :: "64 word list"
  pos_history_count :: int

definition Board_init :: Board where
  "Board_init = \<lparr>board = replicate 64 0, side = WHITE_SIDE, castling = 0, ep_square = -1,
     halfmove = 0, fullmove = 1, hash = 0, king_sq = [-1, -1],
     pos_history = replicate 1024 0, pos_history_count = 0\<rparr>"

definition compute_hash :: "Board \<Rightarrow> Board" where
  "compute_hash b =
     (let h = fold (\<lambda>sq h. if board b ! nat sq \<noteq> 0
                             then h XOR Z_PIECE (piece_index (board b ! nat sq)) sq else h)
                   [0..63] 0;
          h = (if side b = BLACK_SIDE then h XOR Z_SIDE else h);
          h = h XOR Z_CASTLE (castling b);
          h = (if ep_square b \<ge> 0 then h XOR Z_EP (sq_file (ep_square b)) else h)
      in b\<lparr>hash := h\<rparr>)"

section \<open>Make and unmake (board.cpp)\<close>

text \<open>
  \<open>make_move\<close> fills the caller's \<open>UndoInfo\<close> and mutates the board in place; the model
  returns the new board together with the undo record. Each commented block of the
  source body is one step function, and \<open>make_move\<close> runs them in source order. The
  locals \<open>piece\<close>, \<open>pt\<close> and \<open>s\<close> are read once from the board before the first write.
\<close>

definition mm_lift_piece :: "Board \<Rightarrow> Move \<Rightarrow> int \<Rightarrow> Board" where
  "mm_lift_piece b m piece =
     b\<lparr>hash := hash b XOR Z_PIECE (piece_index piece) (mfrom m),
       board := (board b)[nat (mfrom m) := 0]\<rparr>"

definition mm_remove_captured :: "Board \<Rightarrow> Move \<Rightarrow> Board" where
  "mm_remove_captured b m =
     (if captured m \<noteq> 0 then
        (if flags m AND FL_EP \<noteq> 0 then
           (let cap_sq = make_sq (sq_file (mto m)) (sq_rank (mfrom m))
            in b\<lparr>hash := hash b XOR Z_PIECE (piece_index (captured m)) cap_sq,
                 board := (board b)[nat cap_sq := 0]\<rparr>)
         else b\<lparr>hash := hash b XOR Z_PIECE (piece_index (captured m)) (mto m)\<rparr>)
      else b)"

definition mm_place :: "Board \<Rightarrow> Move \<Rightarrow> int \<Rightarrow> Board" where
  "mm_place b m piece =
     (let placed = (if promotion m \<noteq> 0 then promotion m else piece)
      in b\<lparr>board := (board b)[nat (mto m) := placed],
           hash := hash b XOR Z_PIECE (piece_index placed) (mto m)\<rparr>)"

definition mm_king_square :: "Board \<Rightarrow> Move \<Rightarrow> int \<Rightarrow> int \<Rightarrow> Board" where
  "mm_king_square b m pt s =
     (if pt = PT_KING then b\<lparr>king_sq := (king_sq b)[nat s := mto m]\<rparr> else b)"

definition mm_castle_rook :: "Board \<Rightarrow> Move \<Rightarrow> int \<Rightarrow> Board" where
  "mm_castle_rook b m s =
     (if flags m AND FL_CASTLE \<noteq> 0 then
        (let rook = piece_sign s * PT_ROOK;
             rook_from = (if sq_file (mto m) = 6 then make_sq 7 (sq_rank (mfrom m))
                          else make_sq 0 (sq_rank (mfrom m)));
             rook_to = (if sq_file (mto m) = 6 then make_sq 5 (sq_rank (mfrom m))
                        else make_sq 3 (sq_rank (mfrom m)))
         in b\<lparr>hash := hash b XOR Z_PIECE (piece_index rook) rook_from
                          XOR Z_PIECE (piece_index rook) rook_to,
              board := (board b)[nat rook_from := 0, nat rook_to := rook]\<rparr>)
      else b)"

definition mm_new_castling :: "int \<Rightarrow> Move \<Rightarrow> int \<Rightarrow> int \<Rightarrow> int" where
  "mm_new_castling c0 m pt s =
     (let c1 = (if pt = PT_KING then (if s = WHITE_SIDE then c0 AND NOT 3 else c0 AND NOT 12)
                else c0);
          c2 = (if mfrom m = 0 \<or> mto m = 0 then c1 AND NOT 2 else c1);
          c3 = (if mfrom m = 7 \<or> mto m = 7 then c2 AND NOT 1 else c2);
          c4 = (if mfrom m = 56 \<or> mto m = 56 then c3 AND NOT 8 else c3);
          c5 = (if mfrom m = 63 \<or> mto m = 63 then c4 AND NOT 4 else c4)
      in c5)"

definition mm_castling_rights :: "Board \<Rightarrow> Move \<Rightarrow> int \<Rightarrow> int \<Rightarrow> Board" where
  "mm_castling_rights b m pt s =
     (let c5 = mm_new_castling (castling b) m pt s
      in b\<lparr>hash := hash b XOR Z_CASTLE (castling b) XOR Z_CASTLE c5, castling := c5\<rparr>)"

definition mm_en_passant :: "Board \<Rightarrow> Move \<Rightarrow> int \<Rightarrow> Board" where
  "mm_en_passant b m pt =
     (let b1 = (if ep_square b \<ge> 0
                then b\<lparr>hash := hash b XOR Z_EP (sq_file (ep_square b))\<rparr> else b);
          b2 = b1\<lparr>ep_square := -1\<rparr>
      in if flags m AND FL_DOUBLE \<noteq> 0 \<and> pt = PT_PAWN then
           (let ep = (mfrom m + mto m) div 2
            in b2\<lparr>ep_square := ep, hash := hash b2 XOR Z_EP (sq_file ep)\<rparr>)
         else b2)"

definition mm_halfmove :: "Board \<Rightarrow> Move \<Rightarrow> int \<Rightarrow> Board" where
  "mm_halfmove b m pt =
     (if pt = PT_PAWN \<or> captured m \<noteq> 0 then b\<lparr>halfmove := 0\<rparr>
      else b\<lparr>halfmove := halfmove b + 1\<rparr>)"

definition mm_switch_side :: "Board \<Rightarrow> Board" where
  "mm_switch_side b =
     (let b1 = b\<lparr>side := side b XOR 1, hash := hash b XOR Z_SIDE\<rparr>
      in if side b1 = WHITE_SIDE then b1\<lparr>fullmove := fullmove b1 + 1\<rparr> else b1)"

definition mm_store_position :: "Board \<Rightarrow> Board" where
  "mm_store_position b =
     (if pos_history_count b < MAX_HISTORY then
        b\<lparr>pos_history := (pos_history b)[nat (pos_history_count b) := hash b],
          pos_history_count := pos_history_count b + 1\<rparr>
      else b)"

definition make_move :: "Board \<Rightarrow> Move \<Rightarrow> Board \<times> UndoInfo" where
  "make_move b0 m =
     (let undo = \<lparr>u_castling = castling b0, u_ep_square = ep_square b0,
                   u_halfmove = halfmove b0, u_hash = hash b0\<rparr>;
          piece = board b0 ! nat (mfrom m);
          pt = piece_type piece;
          s = piece_side piece;
          b1 = mm_lift_piece b0 m piece;
          b2 = mm_remove_captured b1 m;
          b3 = mm_place b2 m piece;
          b4 = mm_king_square b3 m pt s;
          b5 = mm_castle_rook b4 m s;
          b6 = mm_castling_rights b5 m pt s;
          b7 = mm_en_passant b6 m pt;
          b8 = mm_halfmove b7 m pt;
          b9 = mm_switch_side b8;
          b10 = mm_store_position b9
      in (b10, undo))"

text \<open>\<open>unmake_move\<close>, likewise block by block.\<close>

definition um_piece :: "Board \<Rightarrow> Move \<Rightarrow> int" where
  "um_piece b m = (if promotion m \<noteq> 0 then piece_sign (side b) * PT_PAWN
                   else board b ! nat (mto m))"

definition um_move_back :: "Board \<Rightarrow> Move \<Rightarrow> int \<Rightarrow> Board" where
  "um_move_back b m piece = b\<lparr>board := (board b)[nat (mto m) := 0, nat (mfrom m) := piece]\<rparr>"

definition um_restore_captured :: "Board \<Rightarrow> Move \<Rightarrow> Board" where
  "um_restore_captured b m =
     (if captured m \<noteq> 0 then
        (if flags m AND FL_EP \<noteq> 0 then
           (let cap_sq = make_sq (sq_file (mto m)) (sq_rank (mfrom m))
            in b\<lparr>board := (board b)[nat cap_sq := captured m]\<rparr>)
         else b\<lparr>board := (board b)[nat (mto m) := captured m]\<rparr>)
      else b)"

definition um_castle_rook :: "Board \<Rightarrow> Move \<Rightarrow> Board" where
  "um_castle_rook b m =
     (if flags m AND FL_CASTLE \<noteq> 0 then
        (let rook = piece_sign (side b) * PT_ROOK
         in if sq_file (mto m) = 6
            then b\<lparr>board := (board b)[nat (make_sq 7 (sq_rank (mfrom m))) := rook,
                                       nat (make_sq 5 (sq_rank (mfrom m))) := 0]\<rparr>
            else b\<lparr>board := (board b)[nat (make_sq 0 (sq_rank (mfrom m))) := rook,
                                       nat (make_sq 3 (sq_rank (mfrom m))) := 0]\<rparr>)
      else b)"

definition um_king_square :: "Board \<Rightarrow> Move \<Rightarrow> int \<Rightarrow> Board" where
  "um_king_square b m pt =
     (if pt = PT_KING then b\<lparr>king_sq := (king_sq b)[nat (side b) := mfrom m]\<rparr> else b)"

definition um_restore_state :: "Board \<Rightarrow> UndoInfo \<Rightarrow> Board" where
  "um_restore_state b undo =
     (let b1 = b\<lparr>castling := u_castling undo, ep_square := u_ep_square undo,
                 halfmove := u_halfmove undo, hash := u_hash undo\<rparr>
      in if side b1 = BLACK_SIDE then b1\<lparr>fullmove := fullmove b1 - 1\<rparr> else b1)"

definition um_pop_position :: "Board \<Rightarrow> Board" where
  "um_pop_position b =
     (if pos_history_count b > 0 then b\<lparr>pos_history_count := pos_history_count b - 1\<rparr>
      else b)"

definition unmake_move :: "Board \<Rightarrow> Move \<Rightarrow> UndoInfo \<Rightarrow> Board" where
  "unmake_move b0 m undo =
     (let b1 = b0\<lparr>side := side b0 XOR 1\<rparr>;
          piece = um_piece b1 m;
          pt = piece_type piece;
          b2 = um_move_back b1 m piece;
          b3 = um_restore_captured b2 m;
          b4 = um_castle_rook b3 m;
          b5 = um_king_square b4 m pt;
          b6 = um_restore_state b5 undo;
          b7 = um_pop_position b6
      in b7)"

text \<open>
  The null move writes only the \<open>ep_square\<close> and \<open>hash\<close> fields of the undo record; the
  other two keep whatever the caller's record held, here the old record \<open>undo0\<close>.
\<close>

definition make_null_move :: "Board \<Rightarrow> UndoInfo \<Rightarrow> Board \<times> UndoInfo" where
  "make_null_move b0 undo0 =
     (let undo = undo0\<lparr>u_ep_square := ep_square b0, u_hash := hash b0\<rparr>;
          b1 = (if ep_square b0 \<ge> 0
                then b0\<lparr>hash := hash b0 XOR Z_EP (sq_file (ep_square b0))\<rparr> else b0);
          b2 = b1\<lparr>ep_square := -1\<rparr>;
          b3 = b2\<lparr>side := side b2 XOR 1, hash := hash b2 XOR Z_SIDE\<rparr>
      in (b3, undo))"

definition unmake_null_move :: "Board \<Rightarrow> UndoInfo \<Rightarrow> Board" where
  "unmake_null_move b0 undo =
     b0\<lparr>side := side b0 XOR 1, ep_square := u_ep_square undo, hash := u_hash undo\<rparr>"

section \<open>Attack detection (board.cpp)\<close>

text \<open>
  Each inner loop of \<open>is_attacked\<close> either returns true from the function or falls
  through to the next test, so the function is the disjunction of its tests in source
  order. A ray loop is a recursion on the square \<open>to\<close>; \<open>break\<close> ends the ray with
  false. The straight-ray loop is entered only with the entries of \<open>ROOK_DIRS\<close>; its
  recursion carries the guard \<open>d \<noteq> 0\<close>, which holds for every entry.
\<close>

definition pawn_attack :: "int list \<Rightarrow> int \<Rightarrow> int \<Rightarrow> bool" where
  "pawn_attack brd sq by_side =
     (if by_side = WHITE_SIDE then
        (if sq_rank sq > 0 then
           (if sq_file sq > 0 \<and> brd ! nat (sq - 9) = W_PAWN then True
            else if sq_file sq < 7 \<and> brd ! nat (sq - 7) = W_PAWN then True
            else False)
         else False)
      else
        (if sq_rank sq < 7 then
           (if sq_file sq > 0 \<and> brd ! nat (sq + 7) = B_PAWN then True
            else if sq_file sq < 7 \<and> brd ! nat (sq + 9) = B_PAWN then True
            else False)
         else False))"

definition knight_attack :: "int list \<Rightarrow> int \<Rightarrow> int \<Rightarrow> bool" where
  "knight_attack brd sq sg =
     list_ex (\<lambda>d. let to = sq + d
                   in to \<ge> 0 \<and> to < 64 \<and> \<bar>sq_file to - sq_file sq\<bar> \<le> 2 \<and>
                      brd ! nat to = sg * PT_KNIGHT) KNIGHT_DIRS"

definition king_attack :: "int list \<Rightarrow> int \<Rightarrow> int \<Rightarrow> bool" where
  "king_attack brd sq sg =
     list_ex (\<lambda>d. let to = sq + d
                   in to \<ge> 0 \<and> to < 64 \<and> \<bar>sq_file to - sq_file sq\<bar> \<le> 1 \<and>
                      brd ! nat to = sg * PT_KING) KING_DIRS"

function diag_ray :: "int list \<Rightarrow> int \<Rightarrow> int \<Rightarrow> int \<Rightarrow> bool" where
  "diag_ray brd sg d to =
     (if to \<ge> 0 \<and> to < 64 then
        (if \<bar>sq_file to - sq_file (to - d)\<bar> \<noteq> 1 then False
         else if brd ! nat to = 0 then diag_ray brd sg d (to + d)
         else if brd ! nat to = sg * PT_BISHOP \<or> brd ! nat to = sg * PT_QUEEN then True
         else False)
      else False)"
  by pat_completeness auto
termination
proof (relation "measure (\<lambda>(brd, sg, d, to). if d > 0 then nat (64 - to) else nat (to + 1))",
    goal_cases)
  case 1
  show ?case by simp
next
  case (2 brd sg d to)
  then have "d \<noteq> 0" by auto
  with 2 show ?case by auto
qed

declare diag_ray.simps [simp del]

function straight_ray :: "int list \<Rightarrow> int \<Rightarrow> int \<Rightarrow> int \<Rightarrow> bool" where
  "straight_ray brd sg d to =
     (if to \<ge> 0 \<and> to < 64 \<and> d \<noteq> 0 then
        (if \<bar>d\<bar> = 1 \<and> sq_rank to \<noteq> sq_rank (to - d) then False
         else if \<bar>d\<bar> = 8 \<and> \<bar>sq_file to - sq_file (to - d)\<bar> \<noteq> 0 then False
         else if brd ! nat to = 0 then straight_ray brd sg d (to + d)
         else if brd ! nat to = sg * PT_ROOK \<or> brd ! nat to = sg * PT_QUEEN then True
         else False)
      else False)"
  by pat_completeness auto
termination
  by (relation "measure (\<lambda>(brd, sg, d, to). if d > 0 then nat (64 - to) else nat (to + 1))")
     auto

declare straight_ray.simps [simp del]

definition is_attacked :: "Board \<Rightarrow> int \<Rightarrow> int \<Rightarrow> bool" where
  "is_attacked b sq by_side =
     (let sg = piece_sign by_side
      in if pawn_attack (board b) sq by_side then True
         else if knight_attack (board b) sq sg then True
         else if king_attack (board b) sq sg then True
         else if list_ex (\<lambda>d. diag_ray (board b) sg d (sq + d)) BISHOP_DIRS then True
         else if list_ex (\<lambda>d. straight_ray (board b) sg d (sq + d)) ROOK_DIRS then True
         else False)"

definition in_check :: "Board \<Rightarrow> bool" where
  "in_check b = is_attacked b (king_sq b ! nat (side b)) (side b XOR 1)"

section \<open>Pseudo-legal move generation (board.cpp)\<close>

text \<open>
  A generator appends to the caller's move array; the model returns the moves one call
  appends, in the order it appends them, and \<open>gen_pseudo_moves\<close> concatenates them.
\<close>

definition pawn_dir :: "Board \<Rightarrow> int" where
  "pawn_dir b = (if side b = WHITE_SIDE then 8 else -8)"

definition pawn_start_rank :: "Board \<Rightarrow> int" where
  "pawn_start_rank b = (if side b = WHITE_SIDE then 1 else 6)"

definition pawn_promo_rank :: "Board \<Rightarrow> int" where
  "pawn_promo_rank b = (if side b = WHITE_SIDE then 7 else 0)"

text \<open>The forward block of \<open>gen_pawn_moves\<close> for the pawn on \<open>sq\<close>.\<close>

definition pawn_forward :: "Board \<Rightarrow> int \<Rightarrow> Move list" where
  "pawn_forward b sq =
     (let sg = piece_sign (side b);
          to = sq + pawn_dir b
      in if to \<ge> 0 \<and> to < 64 \<and> board b ! nat to = 0 then
           (if sq_rank to = pawn_promo_rank b then
              [mk_move sq to 0 (sg * PT_QUEEN) 0, mk_move sq to 0 (sg * PT_ROOK) 0,
               mk_move sq to 0 (sg * PT_BISHOP) 0, mk_move sq to 0 (sg * PT_KNIGHT) 0]
            else
              mk_move sq to 0 0 0 #
              (if sq_rank sq = pawn_start_rank b then
                 (let to2 = sq + 2 * pawn_dir b
                  in if board b ! nat to2 = 0 then [mk_move sq to2 0 0 FL_DOUBLE] else [])
               else []))
         else [])"

text \<open>One round of the capture loop of \<open>gen_pawn_moves\<close>, for \<open>cap_dirs[i]\<close> and \<open>cap_files[i]\<close>.\<close>

definition pawn_capture :: "Board \<Rightarrow> int \<Rightarrow> int \<Rightarrow> int \<Rightarrow> Move list" where
  "pawn_capture b sq cap_dir cap_file =
     (let sg = piece_sign (side b);
          to = sq + cap_dir
      in if cap_file < 0 \<or> cap_file > 7 then []
         else if to < 0 \<or> to \<ge> 64 then []
         else
           (if board b ! nat to \<noteq> 0 \<and> piece_side (board b ! nat to) \<noteq> side b then
              (if sq_rank to = pawn_promo_rank b then
                 [mk_move sq to (board b ! nat to) (sg * PT_QUEEN) 0,
                  mk_move sq to (board b ! nat to) (sg * PT_ROOK) 0,
                  mk_move sq to (board b ! nat to) (sg * PT_BISHOP) 0,
                  mk_move sq to (board b ! nat to) (sg * PT_KNIGHT) 0]
               else [mk_move sq to (board b ! nat to) 0 0])
            else []) @
           (if to = ep_square b then [mk_move sq to (- sg * PT_PAWN) 0 FL_EP] else []))"

definition pawn_moves_from :: "Board \<Rightarrow> int \<Rightarrow> Move list" where
  "pawn_moves_from b sq =
     pawn_forward b sq @
     concat (map (\<lambda>(cap_dir, cap_file). pawn_capture b sq cap_dir cap_file)
                 [(pawn_dir b - 1, sq_file sq - 1), (pawn_dir b + 1, sq_file sq + 1)])"

definition gen_pawn_moves :: "Board \<Rightarrow> Move list" where
  "gen_pawn_moves b =
     concat (map (\<lambda>sq. if board b ! nat sq \<noteq> piece_sign (side b) * PT_PAWN then []
                        else pawn_moves_from b sq) [0..63])"

text \<open>The same two blocks of \<open>gen_pawn_captures\<close>.\<close>

definition pawn_push_promotion :: "Board \<Rightarrow> int \<Rightarrow> Move list" where
  "pawn_push_promotion b sq =
     (let sg = piece_sign (side b);
          fwd = sq + pawn_dir b
      in if fwd \<ge> 0 \<and> fwd < 64 \<and> board b ! nat fwd = 0 \<and> sq_rank fwd = pawn_promo_rank b
         then [mk_move sq fwd 0 (sg * PT_QUEEN) 0] else [])"

definition pawn_capture_only :: "Board \<Rightarrow> int \<Rightarrow> int \<Rightarrow> int \<Rightarrow> Move list" where
  "pawn_capture_only b sq cap_dir cap_file =
     (let sg = piece_sign (side b);
          to = sq + cap_dir
      in if cap_file < 0 \<or> cap_file > 7 then []
         else if to < 0 \<or> to \<ge> 64 then []
         else
           (if board b ! nat to \<noteq> 0 \<and> piece_side (board b ! nat to) \<noteq> side b then
              (if sq_rank to = pawn_promo_rank b
               then [mk_move sq to (board b ! nat to) (sg * PT_QUEEN) 0]
               else [mk_move sq to (board b ! nat to) 0 0])
            else []) @
           (if to = ep_square b then [mk_move sq to (- sg * PT_PAWN) 0 FL_EP] else []))"

definition pawn_captures_from :: "Board \<Rightarrow> int \<Rightarrow> Move list" where
  "pawn_captures_from b sq =
     pawn_push_promotion b sq @
     concat (map (\<lambda>(cap_dir, cap_file). pawn_capture_only b sq cap_dir cap_file)
                 [(pawn_dir b - 1, sq_file sq - 1), (pawn_dir b + 1, sq_file sq + 1)])"

definition gen_pawn_captures :: "Board \<Rightarrow> Move list" where
  "gen_pawn_captures b =
     concat (map (\<lambda>sq. if board b ! nat sq \<noteq> piece_sign (side b) * PT_PAWN then []
                        else pawn_captures_from b sq) [0..63])"

definition step_moves_from :: "Board \<Rightarrow> int \<Rightarrow> int \<Rightarrow> int list \<Rightarrow> Move list" where
  "step_moves_from b sq reach dirs =
     concat (map (\<lambda>d. let to = sq + d
                       in if to < 0 \<or> to \<ge> 64 then []
                          else if \<bar>sq_file to - sq_file sq\<bar> > reach then []
                          else if board b ! nat to = 0 then [mk_move sq to 0 0 0]
                          else if piece_side (board b ! nat to) \<noteq> side b
                          then [mk_move sq to (board b ! nat to) 0 0]
                          else []) dirs)"

definition step_captures_from :: "Board \<Rightarrow> int \<Rightarrow> int \<Rightarrow> int list \<Rightarrow> Move list" where
  "step_captures_from b sq reach dirs =
     concat (map (\<lambda>d. let to = sq + d
                       in if to < 0 \<or> to \<ge> 64 then []
                          else if \<bar>sq_file to - sq_file sq\<bar> > reach then []
                          else if board b ! nat to \<noteq> 0 \<and> piece_side (board b ! nat to) \<noteq> side b
                          then [mk_move sq to (board b ! nat to) 0 0]
                          else []) dirs)"

definition gen_knight_moves :: "Board \<Rightarrow> Move list" where
  "gen_knight_moves b =
     concat (map (\<lambda>sq. if board b ! nat sq \<noteq> piece_sign (side b) * PT_KNIGHT then []
                        else step_moves_from b sq 2 KNIGHT_DIRS) [0..63])"

definition gen_knight_captures :: "Board \<Rightarrow> Move list" where
  "gen_knight_captures b =
     concat (map (\<lambda>sq. if board b ! nat sq \<noteq> piece_sign (side b) * PT_KNIGHT then []
                        else step_captures_from b sq 2 KNIGHT_DIRS) [0..63])"

text \<open>
  The slider rays: the loop variable is \<open>to\<close>, the origin \<open>sq\<close> stays fixed. The
  recursion carries the guard \<open>d \<noteq> 0\<close>, true of every table entry.
\<close>

function slide_moves :: "Board \<Rightarrow> int \<Rightarrow> int \<Rightarrow> int \<Rightarrow> Move list" where
  "slide_moves b sq d to =
     (if to \<ge> 0 \<and> to < 64 \<and> d \<noteq> 0 then
        (if \<bar>sq_file to - sq_file (to - d)\<bar> > 1 then []
         else if board b ! nat to = 0 then mk_move sq to 0 0 0 # slide_moves b sq d (to + d)
         else if piece_side (board b ! nat to) \<noteq> side b
         then [mk_move sq to (board b ! nat to) 0 0]
         else [])
      else [])"
  by pat_completeness auto
termination
  by (relation "measure (\<lambda>(b, sq, d, to). if d > 0 then nat (64 - to) else nat (to + 1))")
     auto

declare slide_moves.simps [simp del]

function slide_captures :: "Board \<Rightarrow> int \<Rightarrow> int \<Rightarrow> int \<Rightarrow> Move list" where
  "slide_captures b sq d to =
     (if to \<ge> 0 \<and> to < 64 \<and> d \<noteq> 0 then
        (if \<bar>sq_file to - sq_file (to - d)\<bar> > 1 then []
         else if board b ! nat to = 0 then slide_captures b sq d (to + d)
         else if piece_side (board b ! nat to) \<noteq> side b
         then [mk_move sq to (board b ! nat to) 0 0]
         else [])
      else [])"
  by pat_completeness auto
termination
  by (relation "measure (\<lambda>(b, sq, d, to). if d > 0 then nat (64 - to) else nat (to + 1))")
     auto

declare slide_captures.simps [simp del]

definition slider_dirs :: "int \<Rightarrow> int list" where
  "slider_dirs piece_t =
     (if piece_t = PT_BISHOP then BISHOP_DIRS
      else if piece_t = PT_ROOK then ROOK_DIRS
      else KING_DIRS)"

definition gen_slider_moves :: "Board \<Rightarrow> int \<Rightarrow> Move list" where
  "gen_slider_moves b piece_t =
     concat (map (\<lambda>sq. if board b ! nat sq \<noteq> piece_sign (side b) * piece_t then []
                        else concat (map (\<lambda>d. slide_moves b sq d (sq + d)) (slider_dirs piece_t)))
                 [0..63])"

definition gen_slider_captures :: "Board \<Rightarrow> int \<Rightarrow> Move list" where
  "gen_slider_captures b piece_t =
     concat (map (\<lambda>sq. if board b ! nat sq \<noteq> piece_sign (side b) * piece_t then []
                        else concat (map (\<lambda>d. slide_captures b sq d (sq + d))
                                         (slider_dirs piece_t)))
                 [0..63])"

definition castle_moves :: "Board \<Rightarrow> Move list" where
  "castle_moves b =
     (let sq = king_sq b ! nat (side b)
      in if \<not> is_attacked b sq (side b XOR 1) then
           (if side b = WHITE_SIDE then
              (if castling b AND 1 \<noteq> 0 \<and> board b ! 5 = 0 \<and> board b ! 6 = 0 \<and>
                  \<not> is_attacked b 5 BLACK_SIDE \<and> \<not> is_attacked b 6 BLACK_SIDE
               then [mk_move 4 6 0 0 FL_CASTLE] else []) @
              (if castling b AND 2 \<noteq> 0 \<and> board b ! 3 = 0 \<and> board b ! 2 = 0 \<and> board b ! 1 = 0 \<and>
                  \<not> is_attacked b 3 BLACK_SIDE \<and> \<not> is_attacked b 2 BLACK_SIDE
               then [mk_move 4 2 0 0 FL_CASTLE] else [])
            else
              (if castling b AND 4 \<noteq> 0 \<and> board b ! 61 = 0 \<and> board b ! 62 = 0 \<and>
                  \<not> is_attacked b 61 WHITE_SIDE \<and> \<not> is_attacked b 62 WHITE_SIDE
               then [mk_move 60 62 0 0 FL_CASTLE] else []) @
              (if castling b AND 8 \<noteq> 0 \<and> board b ! 59 = 0 \<and> board b ! 58 = 0 \<and>
                  board b ! 57 = 0 \<and>
                  \<not> is_attacked b 59 WHITE_SIDE \<and> \<not> is_attacked b 58 WHITE_SIDE
               then [mk_move 60 58 0 0 FL_CASTLE] else []))
         else [])"

definition gen_king_moves :: "Board \<Rightarrow> Move list" where
  "gen_king_moves b =
     step_moves_from b (king_sq b ! nat (side b)) 1 KING_DIRS @ castle_moves b"

definition gen_king_captures :: "Board \<Rightarrow> Move list" where
  "gen_king_captures b = step_captures_from b (king_sq b ! nat (side b)) 1 KING_DIRS"

definition gen_pseudo_moves :: "Board \<Rightarrow> Move list" where
  "gen_pseudo_moves b =
     gen_pawn_moves b @ gen_knight_moves b @ gen_slider_moves b PT_BISHOP @
     gen_slider_moves b PT_ROOK @ gen_slider_moves b PT_QUEEN @ gen_king_moves b"

definition gen_captures :: "Board \<Rightarrow> Move list" where
  "gen_captures b =
     gen_pawn_captures b @ gen_knight_captures b @ gen_slider_captures b PT_BISHOP @
     gen_slider_captures b PT_ROOK @ gen_slider_captures b PT_QUEEN @ gen_king_captures b"

section \<open>Legal move generation (board.cpp)\<close>

text \<open>
  \<open>gen_legal_moves\<close> is declared \<open>const\<close> but casts the constness away and tries every
  pseudo-legal move on the board itself, making and unmaking it. The model threads the
  board through that loop and returns it beside the legal moves, so that whatever the
  make/unmake pairs leave behind is seen by the caller, as in the source.
\<close>

definition try_move :: "Move \<Rightarrow> Move list \<times> Board \<Rightarrow> Move list \<times> Board" where
  "try_move m acc =
     (let (legal, b) = acc;
          (b1, undo) = make_move b m;
          legal1 = (if \<not> is_attacked b1 (king_sq b1 ! nat (side b1 XOR 1)) (side b1)
                    then legal @ [m] else legal);
          b2 = unmake_move b1 m undo
      in (legal1, b2))"

definition gen_legal_moves :: "Board \<Rightarrow> Move list \<times> Board" where
  "gen_legal_moves b = fold try_move (gen_pseudo_moves b) ([], b)"

definition is_legal :: "Board \<Rightarrow> Move \<Rightarrow> bool \<times> Board" where
  "is_legal b m =
     (let (b1, undo) = make_move b m;
          legal = (\<not> is_attacked b1 (king_sq b1 ! nat (side b1 XOR 1)) (side b1));
          b2 = unmake_move b1 m undo
      in (legal, b2))"

section \<open>Draw detection (board.cpp)\<close>

function count_repetitions_loop :: "64 word list \<Rightarrow> 64 word \<Rightarrow> int \<Rightarrow> int \<Rightarrow> int" where
  "count_repetitions_loop ph h i cnt =
     (if i \<ge> 0 then count_repetitions_loop ph h (i - 2) (if ph ! nat i = h then cnt + 1 else cnt)
      else cnt)"
  by pat_completeness auto
termination
  by (relation "measure (\<lambda>(ph, h, i, cnt). nat (i + 1))") auto

declare count_repetitions_loop.simps [simp del]

definition count_repetitions :: "Board \<Rightarrow> int" where
  "count_repetitions b =
     count_repetitions_loop (pos_history b) (hash b) (pos_history_count b - 3) 0"

definition is_draw :: "Board \<Rightarrow> bool" where
  "is_draw b = (if halfmove b \<ge> 100 then True
                else if count_repetitions b \<ge> 2 then True
                else False)"

section \<open>Evaluation (search.cpp)\<close>

definition PST_PAWN :: "int list" where
  "PST_PAWN = [
     0,  0,  0,  0,  0,  0,  0,  0,
    50, 50, 50, 50, 50, 50, 50, 50,
    10, 10, 20, 30, 30, 20, 10, 10,
     5,  5, 10, 25, 25, 10,  5,  5,
     0,  0,  0, 20, 20,  0,  0,  0,
     5, -5,-10,  0,  0,-10, -5,  5,
     5, 10, 10,-20,-20, 10, 10,  5,
     0,  0,  0,  0,  0,  0,  0,  0]"

definition PST_KNIGHT :: "int list" where
  "PST_KNIGHT = [
    -50,-40,-30,-30,-30,-30,-40,-50,
    -40,-20,  0,  0,  0,  0,-20,-40,
    -30,  0, 10, 15, 15, 10,  0,-30,
    -30,  5, 15, 20, 20, 15,  5,-30,
    -30,  0, 15, 20, 20, 15,  0,-30,
    -30,  5, 10, 15, 15, 10,  5,-30,
    -40,-20,  0,  5,  5,  0,-20,-40,
    -50,-40,-30,-30,-30,-30,-40,-50]"

definition PST_BISHOP :: "int list" where
  "PST_BISHOP = [
    -20,-10,-10,-10,-10,-10,-10,-20,
    -10,  0,  0,  0,  0,  0,  0,-10,
    -10,  0, 10, 10, 10, 10,  0,-10,
    -10,  5,  5, 10, 10,  5,  5,-10,
    -10,  0, 10, 10, 10, 10,  0,-10,
    -10, 10, 10, 10, 10, 10, 10,-10,
    -10,  5,  0,  0,  0,  0,  5,-10,
    -20,-10,-10,-10,-10,-10,-10,-20]"

definition PST_ROOK :: "int list" where
  "PST_ROOK = [
     0,  0,  0,  0,  0,  0,  0,  0,
     5, 10, 10, 10, 10, 10, 10,  5,
    -5,  0,  0,  0,  0,  0,  0, -5,
    -5,  0,  0,  0,  0,  0,  0, -5,
    -5,  0,  0,  0,  0,  0,  0, -5,
    -5,  0,  0,  0,  0,  0,  0, -5,
    -5,  0,  0,  0,  0,  0,  0, -5,
     0,  0,  0,  5,  5,  0,  0,  0]"

definition PST_QUEEN :: "int list" where
  "PST_QUEEN = [
    -20,-10,-10, -5, -5,-10,-10,-20,
    -10,  0,  0,  0,  0,  0,  0,-10,
    -10,  0,  5,  5,  5,  5,  0,-10,
     -5,  0,  5,  5,  5,  5,  0, -5,
      0,  0,  5,  5,  5,  5,  0, -5,
    -10,  5,  5,  5,  5,  5,  0,-10,
    -10,  0,  5,  0,  0,  0,  0,-10,
    -20,-10,-10, -5, -5,-10,-10,-20]"

definition PST_KING_MG :: "int list" where
  "PST_KING_MG = [
    -30,-40,-40,-50,-50,-40,-40,-30,
    -30,-40,-40,-50,-50,-40,-40,-30,
    -30,-40,-40,-50,-50,-40,-40,-30,
    -30,-40,-40,-50,-50,-40,-40,-30,
    -20,-30,-30,-40,-40,-30,-30,-20,
    -10,-20,-20,-20,-20,-20,-20,-10,
     20, 20,  0,  0,  0,  0, 20, 20,
     20, 30, 10,  0,  0, 10, 30, 20]"

definition PST_KING_EG :: "int list" where
  "PST_KING_EG = [
    -50,-40,-30,-20,-20,-30,-40,-50,
    -30,-20,-10,  0,  0,-10,-20,-30,
    -30,-10, 20, 30, 30, 20,-10,-30,
    -30,-10, 30, 40, 40, 30,-10,-30,
    -30,-10, 30, 40, 40, 30,-10,-30,
    -30,-10, 20, 30, 30, 20,-10,-30,
    -30,-30,  0,  0,  0,  0,-30,-30,
    -50,-30,-30,-30,-30,-30,-30,-50]"

text \<open>\<open>PST_TABLE\<close> is an array of table pointers whose entry 0 is the null pointer.\<close>

definition PST_TABLE :: "int list option list" where
  "PST_TABLE = [None, Some PST_PAWN, Some PST_KNIGHT, Some PST_BISHOP, Some PST_ROOK,
                Some PST_QUEEN, Some PST_KING_MG]"

definition is_endgame :: "Board \<Rightarrow> bool" where
  "is_endgame b =
     (let (queens, minors) =
            fold (\<lambda>sq (queens, minors).
                    let pt = piece_type (board b ! nat sq);
                        queens1 = (if pt = PT_QUEEN then queens + 1 else queens);
                        minors1 = (if pt = PT_KNIGHT \<or> pt = PT_BISHOP then minors + 1
                                   else minors)
                    in (queens1, minors1))
                 [0..63] (0 :: int, 0 :: int)
      in queens = 0 \<or> (queens \<le> 2 \<and> minors \<le> 2))"

text \<open>
  The table \<open>evaluate\<close> reads for a piece of type \<open>pt\<close>:
  \<open>(pt == PT_KING && endgame) ? PST_KING_EG : PST_TABLE[pt]\<close>.
\<close>

definition pst_for :: "bool \<Rightarrow> int \<Rightarrow> int list option" where
  "pst_for endgame pt = (if pt = PT_KING \<and> endgame then Some PST_KING_EG
                         else PST_TABLE ! nat pt)"

text \<open>
  The state of the first loop of \<open>evaluate\<close>: the score, the bishop counters and the
  two pawn-file arrays. The material and pawn totals the source also accumulates there
  are never read and are left out.
\<close>

record eval_acc =
  ev_score :: int
  white_bishops :: int
  black_bishops :: int
  white_pawn_files :: "int list"
  black_pawn_files :: "int list"

definition eval_piece :: "Board \<Rightarrow> bool \<Rightarrow> int \<Rightarrow> eval_acc \<Rightarrow> eval_acc" where
  "eval_piece b endgame sq a =
     (let p = board b ! nat sq
      in if p = 0 then a
         else
           (let pt = piece_type p;
                val = PIECE_VAL ! nat pt;
                pst = pst_for endgame pt
            in if p > 0 then
                 (let idx = mirror_sq sq;
                      a1 = a\<lparr>ev_score := ev_score a +
                              (val + (case pst of Some t \<Rightarrow> t ! nat idx | None \<Rightarrow> 0))\<rparr>;
                      a2 = (if pt = PT_PAWN
                            then a1\<lparr>white_pawn_files := (white_pawn_files a1)
                                     [nat (sq_file sq) := white_pawn_files a1 ! nat (sq_file sq) + 1]\<rparr>
                            else a1);
                      a3 = (if pt = PT_BISHOP then a2\<lparr>white_bishops := white_bishops a2 + 1\<rparr>
                            else a2)
                  in a3)
               else
                 (let idx = sq;
                      a1 = a\<lparr>ev_score := ev_score a -
                              (val + (case pst of Some t \<Rightarrow> t ! nat idx | None \<Rightarrow> 0))\<rparr>;
                      a2 = (if pt = PT_PAWN
                            then a1\<lparr>black_pawn_files := (black_pawn_files a1)
                                     [nat (sq_file sq) := black_pawn_files a1 ! nat (sq_file sq) + 1]\<rparr>
                            else a1);
                      a3 = (if pt = PT_BISHOP then a2\<lparr>black_bishops := black_bishops a2 + 1\<rparr>
                            else a2)
                  in a3)))"

definition eval_bishop_pair :: "eval_acc \<Rightarrow> int" where
  "eval_bishop_pair a =
     (if white_bishops a \<ge> 2 then 30 else 0) - (if black_bishops a \<ge> 2 then 30 else 0)"

definition eval_pawn_file :: "int list \<Rightarrow> int list \<Rightarrow> int \<Rightarrow> int \<Rightarrow> int" where
  "eval_pawn_file wpf bpf f score0 =
     (let s1 = (if wpf ! nat f > 1 then score0 - 10 * (wpf ! nat f - 1) else score0);
          s2 = (if bpf ! nat f > 1 then s1 + 10 * (bpf ! nat f - 1) else s1);
          w_adj = ((f > 0 \<and> wpf ! nat (f - 1) \<noteq> 0) \<or> (f < 7 \<and> wpf ! nat (f + 1) \<noteq> 0));
          b_adj = ((f > 0 \<and> bpf ! nat (f - 1) \<noteq> 0) \<or> (f < 7 \<and> bpf ! nat (f + 1) \<noteq> 0));
          s3 = (if wpf ! nat f \<noteq> 0 \<and> \<not> w_adj then s2 - 15 else s2);
          s4 = (if bpf ! nat f \<noteq> 0 \<and> \<not> b_adj then s3 + 15 else s3)
      in s4)"

text \<open>
  The passed-pawn test scans the ranks ahead on the pawn's file and its neighbours and
  stops at the first enemy pawn; its result is whether none is found.
\<close>

definition eval_passed :: "Board \<Rightarrow> int \<Rightarrow> int \<Rightarrow> int" where
  "eval_passed b sq score0 =
     (let p = board b ! nat sq;
          f = sq_file sq;
          r = sq_rank sq;
          s1 = (if p = W_PAWN then
                  (if list_all (\<lambda>rr. list_all (\<lambda>ff. board b ! nat (make_sq ff rr) \<noteq> B_PAWN)
                                               [max 0 (f - 1)..min 7 (f + 1)])
                               [r + 1..7]
                   then score0 + (20 + 10 * r) else score0)
                else score0);
          s2 = (if p = B_PAWN then
                  (if list_all (\<lambda>rr. list_all (\<lambda>ff. board b ! nat (make_sq ff rr) \<noteq> W_PAWN)
                                               [max 0 (f - 1)..min 7 (f + 1)])
                               (rev [0..r - 1])
                   then s1 - (20 + 10 * (7 - r)) else s1)
                else s1)
      in s2)"

definition eval_rook :: "Board \<Rightarrow> int list \<Rightarrow> int list \<Rightarrow> int \<Rightarrow> int \<Rightarrow> int" where
  "eval_rook b wpf bpf sq score0 =
     (let p = board b ! nat sq
      in if piece_type p \<noteq> PT_ROOK then score0
         else
           (let f = sq_file sq
            in if p > 0 then
                 (if wpf ! nat f = 0 \<and> bpf ! nat f = 0 then score0 + 20
                  else if wpf ! nat f = 0 then score0 + 10 else score0)
               else
                 (if wpf ! nat f = 0 \<and> bpf ! nat f = 0 then score0 - 20
                  else if bpf ! nat f = 0 then score0 - 10 else score0)))"

definition king_shield :: "Board \<Rightarrow> int \<Rightarrow> int" where
  "king_shield b s =
     (let ksq = king_sq b ! nat s;
          kf = sq_file ksq;
          kr = sq_rank ksq;
          pawn = (if s = WHITE_SIDE then W_PAWN else B_PAWN);
          dir = (if s = WHITE_SIDE then 1 else -1)
      in fold (\<lambda>df shield.
                 let ff = kf + df
                 in if ff < 0 \<or> ff > 7 then shield
                    else
                      (let sr1 = kr + dir;
                           sh1 = (if sr1 \<ge> 0 \<and> sr1 < 8 \<and> board b ! nat (make_sq ff sr1) = pawn
                                  then shield + 1 else shield);
                           sr2 = kr + 2 * dir;
                           sh2 = (if sr2 \<ge> 0 \<and> sr2 < 8 \<and> board b ! nat (make_sq ff sr2) = pawn
                                  then sh1 + 1 else sh1)
                       in sh2))
              [-1..1] 0)"

definition eval_king_safety :: "Board \<Rightarrow> bool \<Rightarrow> int \<Rightarrow> int" where
  "eval_king_safety b endgame score0 =
     (if \<not> endgame then
        fold (\<lambda>s sc. if s = WHITE_SIDE then sc + king_shield b s * 10
                      else sc - king_shield b s * 10) [0..1] score0
      else score0)"

text \<open>
  The body of \<open>evaluate\<close> after its first statement \<open>bool endgame = is_endgame(board)\<close>,
  with that local as a parameter.
\<close>

definition evaluate_phase :: "Board \<Rightarrow> bool \<Rightarrow> int" where
  "evaluate_phase b endgame =
     (let a = fold (eval_piece b endgame) [0..63]
                \<lparr>ev_score = 0, white_bishops = 0, black_bishops = 0,
                 white_pawn_files = replicate 8 0, black_pawn_files = replicate 8 0\<rparr>;
          s1 = ev_score a + eval_bishop_pair a;
          s2 = fold (eval_pawn_file (white_pawn_files a) (black_pawn_files a)) [0..7] s1;
          s3 = fold (eval_passed b) [0..63] s2;
          s4 = fold (eval_rook b (white_pawn_files a) (black_pawn_files a)) [0..63] s3;
          s5 = eval_king_safety b endgame s4
      in s5)"

definition evaluate :: "Board \<Rightarrow> int" where
  "evaluate b = evaluate_phase b (is_endgame b)"

section \<open>Transposition table (search.h, search.cpp)\<close>

text \<open>
  The table is a vector whose size is a power of two; it is indexed only by
  \<open>key & tt_mask\<close>, which is always inside it, so it is modelled as a function from the
  index. \<open>score\<close> is an \<open>int16_t\<close> and \<open>depth\<close> an \<open>int8_t\<close>: storing narrows, reading
  sign-extends.
\<close>

datatype TTFlag = TT_EXACT | TT_LOWER | TT_UPPER

record TTEntry =
  e_key :: "64 word"
  e_score :: "16 word"
  e_depth :: "8 word"
  e_flag :: TTFlag
  e_best :: Move

record Searcher =
  tt :: "int \<Rightarrow> TTEntry"
  tt_mask :: int
  tt_hits :: int
  tt_stores :: int
  nodes :: int
  killers :: "int \<Rightarrow> int \<Rightarrow> Move"
  history :: "int \<Rightarrow> int \<Rightarrow> int \<Rightarrow> int"
  max_time :: int
  time_up :: bool
  clock_reads :: nat

definition tt_store :: "Searcher \<Rightarrow> 64 word \<Rightarrow> int \<Rightarrow> int \<Rightarrow> TTFlag \<Rightarrow> Move \<Rightarrow> Searcher" where
  "tt_store s key depth score flag best =
     (let idx = uint (key AND word_of_int (tt_mask s));
          e = tt s idx
      in if e_key e \<noteq> key \<or> depth \<ge> sint (e_depth e)
         then s\<lparr>tt := (tt s)(idx := \<lparr>e_key = key, e_score = word_of_int score,
                                      e_depth = word_of_int depth, e_flag = flag,
                                      e_best = best\<rparr>),
                 tt_stores := tt_stores s + 1\<rparr>
         else s)"

text \<open>
  \<open>tt_probe\<close> has two out-parameters. The model takes their values before the call and
  returns the result with their values after it.
\<close>

definition tt_probe ::
  "Searcher \<Rightarrow> 64 word \<Rightarrow> int \<Rightarrow> int \<Rightarrow> int \<Rightarrow> int \<Rightarrow> Move \<Rightarrow> bool \<times> int \<times> Move" where
  "tt_probe s key depth alpha beta score0 best0 =
     (let idx = uint (key AND word_of_int (tt_mask s));
          e = tt s idx
      in if e_key e \<noteq> key then (False, score0, best0)
         else
           (let best = e_best e
            in if sint (e_depth e) \<ge> depth then
                 (let score = sint (e_score e)
                  in if e_flag e = TT_EXACT then (True, score, best)
                     else if e_flag e = TT_LOWER \<and> score \<ge> beta then (True, score, best)
                     else if e_flag e = TT_UPPER \<and> score \<le> alpha then (True, score, best)
                     else (False, score, best))
               else (False, score0, best)))"


section \<open>Operation sequences on a board\<close>

text \<open>
  The public mutators of \<open>Board\<close> after construction, with whatever move and undo record
  a caller passes; \<open>run_ops\<close> applies a sequence of them in order.
\<close>

datatype board_op = Make Move | Unmake Move UndoInfo | MakeNull UndoInfo | UnmakeNull UndoInfo

fun apply_op :: "Board \<Rightarrow> board_op \<Rightarrow> Board" where
  "apply_op b (Make m) = fst (make_move b m)"
| "apply_op b (Unmake m u) = unmake_move b m u"
| "apply_op b (MakeNull u) = fst (make_null_move b u)"
| "apply_op b (UnmakeNull u) = unmake_null_move b u"

definition run_ops :: "Board \<Rightarrow> board_op list \<Rightarrow> Board" where
  "run_ops b ops = foldl apply_op b ops"

definition history_in_bounds :: "Board \<Rightarrow> bool" where
  "history_in_bounds b \<longleftrightarrow>
     int (length (pos_history b)) = MAX_HISTORY \<and> 0 \<le> pos_history_count b \<and>
     pos_history_count b \<le> MAX_HISTORY"

section \<open>Time management and move ordering (search.cpp)\<close>

text \<open>
  The steady clock is an input of the search: \<open>clock k\<close> is the number of milliseconds
  since \<open>start_time\<close> that the k-th reading of the clock during one \<open>search\<close> call
  yields, and \<open>clock_reads\<close> counts the readings made so far.
\<close>

type_synonym clock = "nat \<Rightarrow> int"

definition check_time :: "clock \<Rightarrow> Searcher \<Rightarrow> Searcher" where
  "check_time clk s =
     (if max_time s \<le> 0 then s
      else
        (let elapsed = clk (clock_reads s);
             s1 = s\<lparr>clock_reads := Suc (clock_reads s)\<rparr>
         in if elapsed \<ge> max_time s1 then s1\<lparr>time_up := True\<rparr> else s1))"

text \<open>The first two statements of \<open>alphabeta\<close> and of \<open>quiescence\<close>.\<close>

definition count_node :: "clock \<Rightarrow> Searcher \<Rightarrow> Searcher" where
  "count_node clk s =
     (let s1 = s\<lparr>nodes := nodes s + 1\<rparr>
      in if nodes s1 AND 4095 = 0 then check_time clk s1 else s1)"

definition score_move :: "Board \<Rightarrow> Searcher \<Rightarrow> int \<Rightarrow> Move \<Rightarrow> Move \<Rightarrow> int" where
  "score_move b s ply tt_move m =
     (if move_eq m tt_move then 10000000
      else if captured m \<noteq> 0 then
        (let victim = PIECE_VAL ! nat (piece_type (captured m));
             attacker = PIECE_VAL ! nat (piece_type (board b ! nat (mfrom m)))
         in 5000000 + victim * 10 - attacker)
      else if promotion m \<noteq> 0 then 4500000 + PIECE_VAL ! nat (piece_type (promotion m))
      else if ply < MAX_PLY \<and> move_eq m (killers s ply 0) then 4000000
      else if ply < MAX_PLY \<and> move_eq m (killers s ply 1) then 3900000
      else history s (piece_side (board b ! nat (mfrom m))) (mfrom m) (mto m))"

definition score_moves :: "Board \<Rightarrow> Searcher \<Rightarrow> Move list \<Rightarrow> int \<Rightarrow> Move \<Rightarrow> int list" where
  "score_moves b s moves ply tt_move = map (score_move b s ply tt_move) moves"

text \<open>One step of the selection sort: the move and score arrays after the call.\<close>

definition sort_moves :: "Move list \<Rightarrow> int list \<Rightarrow> nat \<Rightarrow> nat \<Rightarrow> Move list \<times> int list" where
  "sort_moves moves scores count start =
     (let best_idx = fold (\<lambda>i best. if scores ! i > scores ! best then i else best)
                          [start + 1..<count] start
      in if best_idx \<noteq> start then
           (moves[start := moves ! best_idx, best_idx := moves ! start],
            scores[start := scores ! best_idx, best_idx := scores ! start])
         else (moves, scores))"

section \<open>Quiescence search (search.cpp)\<close>

text \<open>
  The searches recurse on positions, not on a structurally smaller argument, so the
  model carries fuel: every call and every loop round spends one unit, and \<open>None\<close> means
  the fuel ran out. The body of each function is a definition that takes the functions
  it calls as parameters; the fuel-indexed functions tie them together. The searcher and
  the board are mutated in place by the source; the model passes them in and returns
  them beside the score.
\<close>

type_synonym search_result = "(int \<times> Searcher \<times> Board) option"

type_synonym q_fun = "clock \<Rightarrow> Searcher \<Rightarrow> Board \<Rightarrow> int \<Rightarrow> int \<Rightarrow> int \<Rightarrow> search_result"

type_synonym q_loop_fun =
  "clock \<Rightarrow> Searcher \<Rightarrow> Board \<Rightarrow> Move list \<Rightarrow> int list \<Rightarrow> nat \<Rightarrow> int \<Rightarrow> int \<Rightarrow> int
     \<Rightarrow> search_result"

definition mvv_lva :: "Board \<Rightarrow> Move \<Rightarrow> int" where
  "mvv_lva b m =
     (let victim = PIECE_VAL ! nat (piece_type (captured m));
          attacker = PIECE_VAL ! nat (piece_type (board b ! nat (mfrom m)))
      in victim * 10 - attacker)"

definition BIG_DELTA :: int where "BIG_DELTA = 900"

text \<open>\<open>quiescence\<close> up to its move loop; \<open>loop\<close> is the loop from index 0.\<close>

definition quiescence_body :: "q_loop_fun \<Rightarrow> q_fun" where
  "quiescence_body loop clk s b alpha beta ply =
     (let s1 = count_node clk s
      in if time_up s1 then Some (0, s1, b)
         else
           (let stand_pat = (if side b = BLACK_SIDE then - evaluate b else evaluate b)
            in if stand_pat \<ge> beta then Some (beta, s1, b)
               else
                 (let alpha1 = (if stand_pat > alpha then stand_pat else alpha)
                  in if stand_pat + BIG_DELTA < alpha1 then Some (alpha1, s1, b)
                     else loop clk s1 b (gen_captures b) (map (mvv_lva b) (gen_captures b))
                            0 alpha1 beta ply)))"

text \<open>
  The move loop of \<open>quiescence\<close> from index \<open>i\<close> on: \<open>rec\<close> is the recursive call of
  \<open>quiescence\<close>, \<open>loop\<close> the rest of the loop.
\<close>

definition q_loop_body :: "q_fun \<Rightarrow> q_loop_fun \<Rightarrow> q_loop_fun" where
  "q_loop_body rec loop clk s b moves scores i alpha beta ply =
     (if i < length moves then
        (let moves1 = fst (sort_moves moves scores (length moves) i);
             scores1 = snd (sort_moves moves scores (length moves) i)
         in if scores1 ! i < -200 \<and> \<not> in_check b
            then loop clk s b moves1 scores1 (i + 1) alpha beta ply
            else
              (let b1 = fst (make_move b (moves1 ! i));
                   undo = snd (make_move b (moves1 ! i))
               in if is_attacked b1 (king_sq b1 ! nat (side b1 XOR 1)) (side b1)
                  then loop clk s (unmake_move b1 (moves1 ! i) undo) moves1 scores1 (i + 1)
                         alpha beta ply
                  else
                    (case rec clk s b1 (- beta) (- alpha) (ply + 1) of
                       None \<Rightarrow> None
                     | Some (r, s2, b2) \<Rightarrow>
                         (let score = - r;
                              b3 = unmake_move b2 (moves1 ! i) undo
                          in if time_up s2 then Some (0, s2, b3)
                             else if score \<ge> beta then Some (beta, s2, b3)
                             else loop clk s2 b3 moves1 scores1 (i + 1)
                                    (if score > alpha then score else alpha) beta ply))))
      else Some (alpha, s, b))"

primrec q_fuel :: "nat \<Rightarrow> q_fun \<times> q_loop_fun" where
  "q_fuel 0 = (\<lambda>clk s b alpha beta ply. None, \<lambda>clk s b moves scores i alpha beta ply. None)"
| "q_fuel (Suc f) =
     (quiescence_body (snd (q_fuel f)), q_loop_body (fst (q_fuel f)) (snd (q_fuel f)))"

definition quiescence :: "nat \<Rightarrow> q_fun" where
  "quiescence f = fst (q_fuel f)"

definition q_loop :: "nat \<Rightarrow> q_loop_fun" where
  "q_loop f = snd (q_fuel f)"

section \<open>Alpha-beta search (search.cpp)\<close>

type_synonym ab_fun =
  "clock \<Rightarrow> Searcher \<Rightarrow> Board \<Rightarrow> int \<Rightarrow> int \<Rightarrow> int \<Rightarrow> int \<Rightarrow> bool \<Rightarrow> search_result"

text \<open>
  What the move loop of \<open>alphabeta\<close> leaves behind: whether it returned 0 on \<open>time_up\<close>,
  and otherwise \<open>best_score\<close>, \<open>best_move\<close> and \<open>tt_flag\<close> at the end of the loop.
\<close>

type_synonym ab_loop_result = "(bool \<times> int \<times> Move \<times> TTFlag \<times> Searcher \<times> Board) option"

type_synonym ab_loop_fun =
  "clock \<Rightarrow> Searcher \<Rightarrow> Board \<Rightarrow> Move list \<Rightarrow> int list \<Rightarrow> nat \<Rightarrow> int \<Rightarrow> int \<Rightarrow> int \<Rightarrow> int
     \<Rightarrow> bool \<Rightarrow> int \<Rightarrow> Move \<Rightarrow> TTFlag \<Rightarrow> ab_loop_result"

text \<open>
  The local \<open>UndoInfo undo\<close> of the null-move block is uninitialised; the two fields
  \<open>make_null_move\<close> does not write are never read.
\<close>

definition UndoInfo_uninit :: UndoInfo where
  "UndoInfo_uninit = \<lparr>u_castling = 0, u_ep_square = 0, u_halfmove = 0, u_hash = 0\<rparr>"

text \<open>The killer and history update on a beta cutoff by the move \<open>m\<close>.\<close>

definition cutoff_update :: "Searcher \<Rightarrow> Board \<Rightarrow> Move \<Rightarrow> int \<Rightarrow> int \<Rightarrow> Searcher" where
  "cutoff_update s b m ply depth =
     (if captured m = 0 \<and> promotion m = 0 \<and> ply < MAX_PLY then
        (let s1 = (if \<not> move_eq m (killers s ply 0)
                   then s\<lparr>killers := (killers s)(ply := (killers s ply)(1 := killers s ply 0,
                                                                        0 := m))\<rparr>
                   else s);
             ms = piece_side (board b ! nat (mfrom m))
         in if ms \<ge> 0 \<and> ms \<le> 1 then
              (let h = history s1;
                   v = h ms (mfrom m) (mto m) + depth * depth;
                   h1 = h(ms := (h ms)(mfrom m := (h ms (mfrom m))(mto m := v)))
               in if v > 1000000
                  then s1\<lparr>history := (\<lambda>sd f t. drop_bit 1 (h1 sd f t))\<rparr>
                  else s1\<lparr>history := h1\<rparr>)
            else s1)
      else s)"

text \<open>
  The null-move block of \<open>alphabeta\<close>: \<open>None\<close> when the fuel ran out in the null search;
  otherwise the null score when the block was entered, with the searcher and the board
  after it.
\<close>

definition null_move_block ::
  "ab_fun \<Rightarrow> clock \<Rightarrow> Searcher \<Rightarrow> Board \<Rightarrow> int \<Rightarrow> int \<Rightarrow> int \<Rightarrow> bool \<Rightarrow> bool
     \<Rightarrow> (int option \<times> Searcher \<times> Board) option" where
  "null_move_block rec clk s b depth beta ply null_ok in_chk =
     (if null_ok \<and> \<not> in_chk \<and> depth \<ge> 3 \<and> \<not> is_endgame b then
        (let R = (if depth \<ge> 6 then 3 else 2);
             b1 = fst (make_null_move b UndoInfo_uninit);
             undo = snd (make_null_move b UndoInfo_uninit)
         in case rec clk s b1 (depth - 1 - R) (- beta) (- beta + 1) (ply + 1) False of
              None \<Rightarrow> None
            | Some (r, s2, b2) \<Rightarrow> Some (Some (- r), s2, unmake_null_move b2 undo))
      else Some (None, s, b))"

definition alphabeta_body :: "q_fun \<Rightarrow> ab_fun \<Rightarrow> ab_loop_fun \<Rightarrow> ab_fun" where
  "alphabeta_body q rec loop clk s b depth0 alpha beta ply null_ok =
     (let s1 = count_node clk s
      in if time_up s1 then Some (0, s1, b)
         else if is_draw b then Some (0, s1, b)
         else
           (let probe = tt_probe s1 (hash b) depth0 alpha beta 0 null_Move;
                tt_hit = fst probe;
                tt_score = fst (snd probe);
                tt_best = snd (snd probe)
            in if tt_hit \<and> ply > 0 then Some (tt_score, s1\<lparr>tt_hits := tt_hits s1 + 1\<rparr>, b)
               else if depth0 \<le> 0 then q clk s1 b alpha beta ply
               else
                 (let in_chk = in_check b;
                      depth = (if in_chk then depth0 + 1 else depth0)
                  in case null_move_block rec clk s1 b depth beta ply null_ok in_chk of
                       None \<Rightarrow> None
                     | Some (null_score, s2, b2) \<Rightarrow>
                         if null_score \<noteq> None \<and> time_up s2 then Some (0, s2, b2)
                         else if (case null_score of Some ns \<Rightarrow> ns \<ge> beta | None \<Rightarrow> False)
                         then Some (beta, s2, b2)
                         else
                           (let moves = fst (gen_legal_moves b2);
                                b3 = snd (gen_legal_moves b2)
                            in if length moves = 0
                               then Some (if in_chk then - (MATE_SCORE - ply) else 0, s2, b3)
                               else
                                 (case loop clk s2 b3 moves (score_moves b3 s2 moves ply tt_best)
                                         0 depth alpha beta ply in_chk (- INF_SCORE) (moves ! 0)
                                         TT_UPPER of
                                    None \<Rightarrow> None
                                  | Some (timed_out, best_score, best_move, tt_flag, s3, b4) \<Rightarrow>
                                      if timed_out then Some (0, s3, b4)
                                      else Some (best_score,
                                                 tt_store s3 (hash b4) depth best_score tt_flag
                                                   best_move, b4))))))"

text \<open>The child search of one move: late move reduction with its re-search, or the full search.\<close>

definition child_search ::
  "ab_fun \<Rightarrow> clock \<Rightarrow> Searcher \<Rightarrow> Board \<Rightarrow> nat \<Rightarrow> int \<Rightarrow> int \<Rightarrow> int \<Rightarrow> int \<Rightarrow> bool \<Rightarrow> bool
     \<Rightarrow> bool \<Rightarrow> bool \<Rightarrow> search_result" where
  "child_search rec clk s b1 i depth alpha beta ply in_chk gives_check is_cap is_promo =
     (if i \<ge> 3 \<and> depth \<ge> 3 \<and> \<not> in_chk \<and> \<not> gives_check \<and> \<not> is_cap \<and> \<not> is_promo then
        (let R = 1 + (if i \<ge> 6 then 1 else 0) + (if depth \<ge> 6 then 1 else 0)
         in case rec clk s b1 (depth - 1 - R) (- alpha - 1) (- alpha) (ply + 1) True of
              None \<Rightarrow> None
            | Some (r, s2, b2) \<Rightarrow>
                if - r > alpha
                then rec clk s2 b2 (depth - 1) (- beta) (- alpha) (ply + 1) True
                else Some (r, s2, b2))
      else rec clk s b1 (depth - 1) (- beta) (- alpha) (ply + 1) True)"

definition ab_loop_body :: "ab_fun \<Rightarrow> ab_loop_fun \<Rightarrow> ab_loop_fun" where
  "ab_loop_body rec loop clk s b moves scores i depth alpha beta ply in_chk best_score best_move
       tt_flag =
     (if i < length moves then
        (let moves1 = fst (sort_moves moves scores (length moves) i);
             scores1 = snd (sort_moves moves scores (length moves) i);
             m = moves1 ! i;
             is_cap = (captured m \<noteq> 0);
             is_promo = (promotion m \<noteq> 0);
             b1 = fst (make_move b m);
             undo = snd (make_move b m);
             gives_check = in_check b1
         in case child_search rec clk s b1 i depth alpha beta ply in_chk gives_check is_cap
                   is_promo of
              None \<Rightarrow> None
            | Some (r, s3, b3) \<Rightarrow>
                (let score = - r;
                     b4 = unmake_move b3 m undo
                 in if time_up s3 then Some (True, best_score, best_move, tt_flag, s3, b4)
                    else
                      (let best_score1 = (if score > best_score then score else best_score);
                           best_move1 = (if score > best_score then m else best_move)
                       in if score > alpha then
                            (if score \<ge> beta
                             then Some (False, best_score1, best_move1, TT_LOWER,
                                        cutoff_update s3 b4 m ply depth, b4)
                             else loop clk s3 b4 moves1 scores1 (i + 1) depth score beta ply
                                    in_chk best_score1 best_move1 TT_EXACT)
                          else loop clk s3 b4 moves1 scores1 (i + 1) depth alpha beta ply in_chk
                                 best_score1 best_move1 tt_flag)))
      else Some (False, best_score, best_move, tt_flag, s, b))"

primrec ab_fuel :: "nat \<Rightarrow> ab_fun \<times> ab_loop_fun" where
  "ab_fuel 0 =
     (\<lambda>clk s b depth alpha beta ply null_ok. None,
      \<lambda>clk s b moves scores i depth alpha beta ply in_chk best_score best_move tt_flag. None)"
| "ab_fuel (Suc f) =
     (alphabeta_body (quiescence f) (fst (ab_fuel f)) (snd (ab_fuel f)),
      ab_loop_body (fst (ab_fuel f)) (snd (ab_fuel f)))"

definition alphabeta :: "nat \<Rightarrow> ab_fun" where
  "alphabeta f = fst (ab_fuel f)"

definition ab_loop :: "nat \<Rightarrow> ab_loop_fun" where
  "ab_loop f = snd (ab_fuel f)"

section \<open>Root search and iterative deepening (search.cpp)\<close>

text \<open>
  \<open>root_search\<close> returns the score and writes \<open>best_move\<close>; its window is the pair of
  locals \<open>alpha = -INF_SCORE\<close>, \<open>beta = INF_SCORE\<close>. The loop state is \<open>alpha\<close>,
  \<open>best_score\<close> and \<open>best_move\<close>; \<open>beta\<close> never changes.
\<close>

type_synonym root_result = "(int \<times> Move \<times> Searcher \<times> Board) option"

type_synonym root_loop_fun =
  "clock \<Rightarrow> Searcher \<Rightarrow> Board \<Rightarrow> Move list \<Rightarrow> int list \<Rightarrow> nat \<Rightarrow> int \<Rightarrow> int \<Rightarrow> int \<Rightarrow> int
     \<Rightarrow> Move \<Rightarrow> root_result"

definition root_loop_body :: "ab_fun \<Rightarrow> root_loop_fun \<Rightarrow> root_loop_fun" where
  "root_loop_body ab loop clk s b moves scores i depth alpha beta best_score best_move =
     (if i < length moves then
        (let moves1 = fst (sort_moves moves scores (length moves) i);
             scores1 = snd (sort_moves moves scores (length moves) i);
             b1 = fst (make_move b (moves1 ! i));
             undo = snd (make_move b (moves1 ! i))
         in case ab clk s b1 (depth - 1) (- beta) (- alpha) 1 True of
              None \<Rightarrow> None
            | Some (r, s2, b2) \<Rightarrow>
                (let score = - r;
                     b3 = unmake_move b2 (moves1 ! i) undo
                 in if time_up s2 then Some (best_score, best_move, s2, b3)
                    else loop clk s2 b3 moves1 scores1 (i + 1) depth
                           (if score > alpha then score else alpha) beta
                           (if score > best_score then score else best_score)
                           (if score > best_score then moves1 ! i else best_move)))
      else Some (best_score, best_move, s, b))"

primrec root_loop :: "nat \<Rightarrow> root_loop_fun" where
  "root_loop 0 = (\<lambda>clk s b moves scores i depth alpha beta best_score best_move. None)"
| "root_loop (Suc f) = root_loop_body (alphabeta f) (root_loop f)"

definition root_search :: "nat \<Rightarrow> clock \<Rightarrow> Searcher \<Rightarrow> Board \<Rightarrow> int \<Rightarrow> root_result" where
  "root_search f clk s b depth =
     (let moves = fst (gen_legal_moves b);
          b1 = snd (gen_legal_moves b)
      in if length moves = 0
         then Some (if in_check b1 then - MATE_SCORE else 0, null_Move, s, b1)
         else
           (let tt_best = snd (snd (tt_probe s (hash b1) 0 (- INF_SCORE) INF_SCORE 0 null_Move));
                scores = score_moves b1 s moves 0 tt_best;
                alpha = - INF_SCORE;
                beta = INF_SCORE
            in case root_loop f clk s b1 moves scores 0 depth alpha beta (- INF_SCORE) (moves ! 0) of
                 None \<Rightarrow> None
               | Some (best_score, best_move, s1, b2) \<Rightarrow>
                   Some (best_score, best_move,
                         tt_store s1 (hash b2) depth best_score TT_EXACT best_move, b2)))"

record SearchResult =
  best_move :: Move
  r_score :: int
  r_depth :: int
  r_nodes :: int
  r_time_ms :: int
  r_tt_hits :: int
  r_tt_stores :: int

text \<open>
  One round of the iterative-deepening loop at \<open>depth\<close>. The result says whether the
  loop goes on to the next depth (\<open>False\<close> after a \<open>break\<close>).
\<close>

definition deepen_step ::
  "nat \<Rightarrow> clock \<Rightarrow> int \<Rightarrow> Searcher \<Rightarrow> Board \<Rightarrow> SearchResult \<Rightarrow> int
     \<Rightarrow> (bool \<times> SearchResult \<times> Searcher \<times> Board) option" where
  "deepen_step f clk max_time_ms s b result depth =
     (case (if depth \<ge> 5 then
              (let delta = 50;
                   alpha = r_score result - delta;
                   beta = r_score result + delta
               in case root_search f clk s b depth of
                    None \<Rightarrow> None
                  | Some (score, best, s1, b1) \<Rightarrow>
                      if time_up s1 then Some (True, score, best, s1, b1)
                      else if score \<le> alpha \<or> score \<ge> beta then
                        (case root_search f clk s1 b1 depth of
                           None \<Rightarrow> None
                         | Some (score2, best2, s2, b2) \<Rightarrow> Some (False, score2, best2, s2, b2))
                      else Some (False, score, best, s1, b1))
            else
              (case root_search f clk s b depth of
                 None \<Rightarrow> None
               | Some (score, best, s1, b1) \<Rightarrow> Some (False, score, best, s1, b1))) of
        None \<Rightarrow> None
      | Some (broke, score, best, s1, b1) \<Rightarrow>
          if broke then Some (False, result, s1, b1)
          else if time_up s1 \<and> depth > 1 then Some (False, result, s1, b1)
          else
            (let result1 = (if \<not> is_null best
                            then result\<lparr>best_move := best, r_score := score, r_depth := depth\<rparr>
                            else result)
             in if \<bar>score\<bar> > MATE_SCORE - 100 then Some (False, result1, s1, b1)
                else
                  (let elapsed = clk (clock_reads s1);
                       s2 = s1\<lparr>clock_reads := Suc (clock_reads s1)\<rparr>
                   in if max_time_ms > 0 \<and> elapsed > max_time_ms div 2
                      then Some (False, result1, s2, b1)
                      else Some (True, result1, s2, b1))))"

primrec deepen_loop ::
  "nat \<Rightarrow> clock \<Rightarrow> int \<Rightarrow> int \<Rightarrow> Searcher \<Rightarrow> Board \<Rightarrow> SearchResult \<Rightarrow> int
     \<Rightarrow> (SearchResult \<times> Searcher \<times> Board) option" where
  "deepen_loop 0 clk max_depth max_time_ms s b result depth = None"
| "deepen_loop (Suc f) clk max_depth max_time_ms s b result depth =
     (if depth \<le> max_depth then
        (case deepen_step f clk max_time_ms s b result depth of
           None \<Rightarrow> None
         | Some (go_on, result1, s1, b1) \<Rightarrow>
             if go_on then deepen_loop f clk max_depth max_time_ms s1 b1 result1 (depth + 1)
             else Some (result1, s1, b1))
      else Some (result, s, b))"

text \<open>
  The local \<open>SearchResult result\<close> of \<open>search\<close> is declared without an initialiser and
  only \<open>best_move\<close>, \<open>score\<close> and \<open>depth\<close> are assigned before the first return. The
  other four fields hold whatever the storage held until the end of the function
  writes them, and the early return on a position without legal moves hands them back
  unwritten. \<open>result0\<close> is that initial content of the local.
\<close>

definition search ::
  "nat \<Rightarrow> clock \<Rightarrow> Searcher \<Rightarrow> Board \<Rightarrow> int \<Rightarrow> int \<Rightarrow> SearchResult
     \<Rightarrow> (SearchResult \<times> Searcher \<times> Board) option"
  where
  "search f clk s0 b max_depth0 max_time_ms result0 =
     (let s = s0\<lparr>max_time := max_time_ms, time_up := False, nodes := 0, tt_hits := 0,
                 tt_stores := 0, killers := (\<lambda>ply k. null_Move), history := (\<lambda>sd fr t. 0),
                 clock_reads := 0\<rparr>;
          result = result0\<lparr>best_move := null_Move, r_score := 0, r_depth := 0\<rparr>;
          legal = fst (gen_legal_moves b);
          b1 = snd (gen_legal_moves b)
      in if length legal = 0 then Some (result, s, b1)
         else
           (let result1 = result\<lparr>best_move := legal ! 0\<rparr>;
                max_depth = (if max_depth0 \<le> 0 then 100 else max_depth0)
            in case deepen_loop f clk max_depth max_time_ms s b1 result1 1 of
                 None \<Rightarrow> None
               | Some (result2, s1, b2) \<Rightarrow>
                   Some (result2\<lparr>r_time_ms := clk (clock_reads s1), r_nodes := nodes s1,
                                 r_tt_hits := tt_hits s1, r_tt_stores := tt_stores s1\<rparr>,
                         s1\<lparr>clock_reads := Suc (clock_reads s1)\<rparr>, b2)))"

section \<open>Piece counts\<close>

text \<open>
  \<open>num_pieces b p\<close> is the number of squares of the mailbox that hold the signed piece
  \<open>p\<close>. \<open>endgame_as_claimed\<close> is the phase test in the words of the specification:
  either side has no queens, or both sides have at most 2 queens and at most 2 minor
  pieces each.
\<close>

definition num_pieces :: "Board \<Rightarrow> int \<Rightarrow> nat" where
  "num_pieces b p = length (filter (\<lambda>sq. board b ! nat sq = p) [0..63])"

definition endgame_as_claimed :: "Board \<Rightarrow> bool" where
  "endgame_as_claimed b \<longleftrightarrow>
     (num_pieces b 5 = 0 \<or> num_pieces b (-5) = 0) \<or>
     (num_pieces b 5 \<le> 2 \<and> num_pieces b (-5) \<le> 2 \<and>
      num_pieces b 2 + num_pieces b 3 \<le> 2 \<and> num_pieces b (-2) + num_pieces b (-3) \<le> 2)"

section \<open>Board invariants\<close>

text \<open>
  \<open>wf_board\<close> collects the invariants of the data model: the mailbox has 64 cells
  holding pieces in \<open>-6..6\<close>; the side is 0 or 1; \<open>king_sq\<close> names, for each colour, the
  one square that holds that colour's king; a castling right is set only while its king
  and rook stand on their home squares; and \<open>ep_square\<close> is either \<open>-1\<close> or the empty
  square behind the enemy pawn that has just advanced two ranks. \<open>legal_position\<close> adds
  that the side that has just moved did not leave its own king attacked.
\<close>

definition wf_board :: "Board \<Rightarrow> bool" where
  "wf_board b \<longleftrightarrow>
     length (board b) = 64 \<and> list_all (\<lambda>p. -6 \<le> p \<and> p \<le> 6) (board b) \<and>
     (side b = WHITE_SIDE \<or> side b = BLACK_SIDE) \<and>
     length (king_sq b) = 2 \<and>
     0 \<le> king_sq b ! 0 \<and> king_sq b ! 0 < 64 \<and> 0 \<le> king_sq b ! 1 \<and> king_sq b ! 1 < 64 \<and>
     list_all (\<lambda>sq. (board b ! nat sq = W_KING) = (sq = king_sq b ! 0)) [0..63] \<and>
     list_all (\<lambda>sq. (board b ! nat sq = B_KING) = (sq = king_sq b ! 1)) [0..63] \<and>
     0 \<le> castling b \<and> castling b < 16 \<and>
     (castling b AND 1 = 0 \<or> (board b ! 4 = 6 \<and> board b ! 7 = 4)) \<and>
     (castling b AND 2 = 0 \<or> (board b ! 4 = 6 \<and> board b ! 0 = 4)) \<and>
     (castling b AND 4 = 0 \<or> (board b ! 60 = -6 \<and> board b ! 63 = -4)) \<and>
     (castling b AND 8 = 0 \<or> (board b ! 60 = -6 \<and> board b ! 56 = -4)) \<and>
     (ep_square b = -1 \<or>
      (side b = WHITE_SIDE \<and> 40 \<le> ep_square b \<and> ep_square b < 48 \<and>
       board b ! nat (ep_square b) = 0 \<and> board b ! nat (ep_square b - 8) = B_PAWN) \<or>
      (side b = BLACK_SIDE \<and> 16 \<le> ep_square b \<and> ep_square b < 24 \<and>
       board b ! nat (ep_square b) = 0 \<and> board b ! nat (ep_square b + 8) = W_PAWN))"

definition legal_position :: "Board \<Rightarrow> bool" where
  "legal_position b \<longleftrightarrow>
     wf_board b \<and> \<not> is_attacked b (king_sq b ! nat (side b XOR 1)) (side b)"

text \<open>
  The shapes of the moves the generators emit on a well-formed board: an ordinary move
  or capture (with a promotion piece when a pawn reaches the last rank), a double pawn
  push, an en-passant capture, and the four castling moves.
\<close>

definition ok_plain :: "Board \<Rightarrow> Move \<Rightarrow> bool" where
  "ok_plain b m \<longleftrightarrow>
     flags m = 0 \<and> captured m = board b ! nat (mto m) \<and>
     (captured m = 0 \<or> piece_side (captured m) \<noteq> side b) \<and>
     (promotion m = 0 \<or>
      (board b ! nat (mfrom m) = piece_sign (side b) * PT_PAWN \<and>
       (promotion m = piece_sign (side b) * PT_QUEEN \<or>
        promotion m = piece_sign (side b) * PT_ROOK \<or>
        promotion m = piece_sign (side b) * PT_BISHOP \<or>
        promotion m = piece_sign (side b) * PT_KNIGHT)))"

definition ok_double :: "Board \<Rightarrow> Move \<Rightarrow> bool" where
  "ok_double b m \<longleftrightarrow>
     flags m = FL_DOUBLE \<and> board b ! nat (mfrom m) = piece_sign (side b) * PT_PAWN \<and>
     captured m = 0 \<and> promotion m = 0 \<and> board b ! nat (mto m) = 0 \<and>
     mto m = mfrom m + 2 * pawn_dir b \<and> board b ! nat (mfrom m + pawn_dir b) = 0 \<and>
     sq_rank (mfrom m) = pawn_start_rank b"

definition ok_ep :: "Board \<Rightarrow> Move \<Rightarrow> bool" where
  "ok_ep b m \<longleftrightarrow>
     flags m = FL_EP \<and> board b ! nat (mfrom m) = piece_sign (side b) * PT_PAWN \<and>
     captured m = - piece_sign (side b) * PT_PAWN \<and> promotion m = 0 \<and>
     mto m = ep_square b \<and>
     make_sq (sq_file (mto m)) (sq_rank (mfrom m)) = mto m - pawn_dir b \<and>
     mfrom m \<noteq> mto m - pawn_dir b"

definition ok_castle :: "Board \<Rightarrow> Move \<Rightarrow> bool" where
  "ok_castle b m \<longleftrightarrow>
     flags m = FL_CASTLE \<and> captured m = 0 \<and> promotion m = 0 \<and>
     ((side b = WHITE_SIDE \<and> mfrom m = 4 \<and> mto m = 6 \<and> castling b AND 1 \<noteq> 0 \<and>
       board b ! 5 = 0 \<and> board b ! 6 = 0) \<or>
      (side b = WHITE_SIDE \<and> mfrom m = 4 \<and> mto m = 2 \<and> castling b AND 2 \<noteq> 0 \<and>
       board b ! 3 = 0 \<and> board b ! 2 = 0 \<and> board b ! 1 = 0) \<or>
      (side b = BLACK_SIDE \<and> mfrom m = 60 \<and> mto m = 62 \<and> castling b AND 4 \<noteq> 0 \<and>
       board b ! 61 = 0 \<and> board b ! 62 = 0) \<or>
      (side b = BLACK_SIDE \<and> mfrom m = 60 \<and> mto m = 58 \<and> castling b AND 8 \<noteq> 0 \<and>
       board b ! 59 = 0 \<and> board b ! 58 = 0 \<and> board b ! 57 = 0))"

definition pseudo_ok :: "Board \<Rightarrow> Move \<Rightarrow> bool" where
  "pseudo_ok b m \<longleftrightarrow>
     0 \<le> mfrom m \<and> mfrom m < 64 \<and> 0 \<le> mto m \<and> mto m < 64 \<and> mfrom m \<noteq> mto m \<and>
     board b ! nat (mfrom m) \<noteq> 0 \<and> piece_side (board b ! nat (mfrom m)) = side b \<and>
     (ok_plain b m \<or> ok_double b m \<or> ok_ep b m \<or> ok_castle b m)"

section \<open>Boards up to the position history\<close>

text \<open>
  \<open>same_core b c\<close>: the two boards agree on every field except the position-history
  buffer and its count. \<open>legal_test b m\<close> is the test \<open>gen_legal_moves\<close> applies to the
  pseudo-legal move \<open>m\<close>: after the move, the mover's king is not attacked.
\<close>

definition same_core :: "Board \<Rightarrow> Board \<Rightarrow> bool" where
  "same_core b c \<longleftrightarrow>
     board b = board c \<and> side b = side c \<and> castling b = castling c \<and>
     ep_square b = ep_square c \<and> halfmove b = halfmove c \<and> fullmove b = fullmove c \<and>
     hash b = hash c \<and> king_sq b = king_sq c"

definition legal_test :: "Board \<Rightarrow> Move \<Rightarrow> bool" where
  "legal_test b m \<longleftrightarrow>
     \<not> is_attacked (fst (make_move b m))
          (king_sq (fst (make_move b m)) ! nat (side (fst (make_move b m)) XOR 1))
          (side (fst (make_move b m)))"

text \<open>
  \<open>same_pos b c\<close>: the two boards show the same chess position, that is they agree on
  the mailbox, the side to move, the castling rights, the en-passant square and the
  king squares.
\<close>

definition same_pos :: "Board \<Rightarrow> Board \<Rightarrow> bool" where
  "same_pos b c \<longleftrightarrow>
     board b = board c \<and> side b = side c \<and> castling b = castling c \<and>
     ep_square b = ep_square c \<and> king_sq b = king_sq c"

section \<open>Runs of the board operations\<close>




section \<open>The hash of a mailbox\<close>

text \<open>
  \<open>zkey p sq\<close> is what \<open>compute_hash\<close> folds in for the square \<open>sq\<close> holding \<open>p\<close> (nothing
  for an empty square), \<open>zobrist_squares\<close> that fold over a list of squares, and
  \<open>zobrist_board\<close> the fold over the 64 squares, the piece part of \<open>compute_hash\<close>.
\<close>

definition zkey :: "int \<Rightarrow> int \<Rightarrow> 64 word" where
  "zkey p sq = (if p \<noteq> 0 then Z_PIECE (piece_index p) sq else 0)"

definition zobrist_squares :: "int list \<Rightarrow> int list \<Rightarrow> 64 word \<Rightarrow> 64 word" where
  "zobrist_squares brd sqs h = fold (\<lambda>sq h. h XOR zkey (brd ! nat sq) sq) sqs h"

definition zobrist_board :: "int list \<Rightarrow> 64 word" where
  "zobrist_board brd = zobrist_squares brd [0..63] 0"

section \<open>Example data\<close>

definition ex_entry :: TTEntry where
  "ex_entry = \<lparr>e_key = 5, e_score = 30, e_depth = 4, e_flag = TT_LOWER,
                e_best = mk_move 12 28 0 0 4\<rparr>"

definition ex_searcher :: Searcher where
  "ex_searcher = \<lparr>tt = (\<lambda>i. ex_entry), tt_mask = 0, tt_hits = 0, tt_stores = 0, nodes = 0,
     killers = (\<lambda>p k. null_Move), history = (\<lambda>sd f t. 0), max_time = 0, time_up = False,
     clock_reads = 0\<rparr>"


definition ex_full_board :: Board where
  "ex_full_board = Board_init\<lparr>pos_history_count := 1024\<rparr>"

definition ex_undo :: UndoInfo where
  "ex_undo = \<lparr>u_castling = 0, u_ep_square = -1, u_halfmove = 0, u_hash = 0\<rparr>"

text \<open>
  \<open>place\<close> puts pieces on an empty mailbox. \<open>ex_castle_board\<close>: white king e1, rooks a1
  and h1, black king e8, black rook b8 (which attacks b1), white to move, both white
  castling rights.
\<close>

definition place :: "(nat \<times> int) list \<Rightarrow> int list" where
  "place ps = fold (\<lambda>(sq, p) brd. brd[sq := p]) ps (replicate 64 0)"

definition ex_castle_board :: Board where
  "ex_castle_board = Board_init\<lparr>board := place [(0, 4), (4, 6), (7, 4), (57, -4), (60, -6)],
     castling := 3, king_sq := [4, 60], pos_history_count := 1\<rparr>"

text \<open>
  \<open>ex_phase_board\<close>: white king e1; black king e8, queen d8, knights b8 and g8, bishop
  c8. White has no queen; the board holds one queen and three minor pieces.
\<close>

definition ex_phase_board :: Board where
  "ex_phase_board = Board_init\<lparr>board := place [(4, 6), (60, -6), (59, -5), (57, -2),
     (62, -2), (58, -3)], side := BLACK_SIDE, king_sq := [4, 60], pos_history_count := 1\<rparr>"

text \<open>\<open>ex_kings_board\<close>: the two kings alone, on e1 and e8.\<close>

definition ex_kings_board :: Board where
  "ex_kings_board = Board_init\<lparr>board := place [(4, 6), (60, -6)], king_sq := [4, 60],
     pos_history_count := 1\<rparr>"








text \<open>
  \<open>ex_stalemate\<close>: the board after \<open>set_fen\<close> of \<open>k7/2Q5/8/8/8/8/8/2B1KBN1 b - -\<close>; black
  is stalemated and the position is no endgame for \<open>is_endgame\<close> (one queen, three minor
  pieces). \<open>ex_mate_pos\<close>: black king a8, white queen b7, white king c6, black to move
  and mated. \<open>ex_fresh_searcher\<close>: a searcher as constructed, with an empty table and no
  time limit; \<open>ex_clock\<close>: a clock that always reads 0.
\<close>

definition ex_stalemate_pos :: Board where
  "ex_stalemate_pos = Board_init\<lparr>board := place
     [(2, 3), (4, 6), (5, 3), (6, 2), (50, 5), (56, -6)],
     side := BLACK_SIDE, king_sq := [4, 56]\<rparr>"

definition ex_stalemate :: Board where
  "ex_stalemate = (compute_hash ex_stalemate_pos)
     \<lparr>pos_history := (pos_history ex_stalemate_pos)[0 := hash (compute_hash ex_stalemate_pos)],
      pos_history_count := 1\<rparr>"

definition ex_fresh_searcher :: Searcher where
  "ex_fresh_searcher = \<lparr>tt = (\<lambda>i. \<lparr>e_key = 0, e_score = 0, e_depth = 0, e_flag = TT_EXACT,
        e_best = null_Move\<rparr>),
     tt_mask = 2097151, tt_hits = 0, tt_stores = 0, nodes = 0,
     killers = (\<lambda>p k. null_Move), history = (\<lambda>sd f t. 0), max_time = 0, time_up = False,
     clock_reads = 0\<rparr>"

definition ex_clock :: clock where
  "ex_clock = (\<lambda>k. 0)"

definition ex_mate_pos :: Board where
  "ex_mate_pos = Board_init\<lparr>board := place [(42, 6), (49, 5), (56, -6)],
     side := BLACK_SIDE, king_sq := [42, 56], pos_history_count := 1\<rparr>"

section \<open>Transposition-table probe\<close>

text \<open>
  Claim C5. Let \<open>e\<close> be the slot that \<open>key\<close> indexes. Whenever \<open>e\<close>'s key equals the probed
  key, \<open>tt_probe\<close> writes \<open>e\<close>'s best move to the out-parameter, cutoff or not. It returns
  true exactly when the keys match, the stored depth is at least the requested depth,
  and the bound fits the window: an EXACT entry always, a LOWER entry only with stored
  score \<open>\<ge> beta\<close>, an UPPER entry only with stored score \<open>\<le> alpha\<close>; and when it returns
  true the score out-parameter holds the stored score. On a key mismatch both
  out-parameters are left as they were.
\<close>

theorem tt_probe_spec:
  "(let e = tt s (uint (key AND word_of_int (tt_mask s)));
        r = tt_probe s key depth alpha beta score0 best0
    in (e_key e = key \<longrightarrow> snd (snd r) = e_best e)
     \<and> (fst r \<longleftrightarrow> e_key e = key \<and> sint (e_depth e) \<ge> depth \<and>
           (e_flag e = TT_EXACT \<or> (e_flag e = TT_LOWER \<and> sint (e_score e) \<ge> beta)
             \<or> (e_flag e = TT_UPPER \<and> sint (e_score e) \<le> alpha)))
     \<and> (fst r \<longrightarrow> fst (snd r) = sint (e_score e))
     \<and> (e_key e \<noteq> key \<longrightarrow> r = (False, score0, best0)))"
  by (cases "e_flag (tt s (uint (key AND word_of_int (tt_mask s))))")
     (simp_all add: tt_probe_def Let_def)

theorem tt_probe_spec_witness:
  "e_key (tt ex_searcher (uint ((5 :: 64 word) AND word_of_int (tt_mask ex_searcher)))) = 5
   \<and> fst (tt_probe ex_searcher 5 3 0 20 0 null_Move)
   \<and> fst (snd (tt_probe ex_searcher 5 3 0 20 0 null_Move)) = 30
   \<and> snd (snd (tt_probe ex_searcher 5 3 0 20 0 null_Move)) = mk_move 12 28 0 0 4
   \<and> \<not> fst (tt_probe ex_searcher 5 3 0 31 0 null_Move)
   \<and> snd (snd (tt_probe ex_searcher 5 3 0 31 0 null_Move)) = mk_move 12 28 0 0 4"
  using tt_probe_spec [of ex_searcher 5 3 0 20 0 null_Move]
        tt_probe_spec [of ex_searcher 5 3 0 31 0 null_Move]
  by (simp add: Let_def ex_searcher_def ex_entry_def)

section \<open>Draw detection\<close>


section \<open>Field-wise effect of the make and unmake steps\<close>

lemmas mm_defs = mm_lift_piece_def mm_remove_captured_def mm_place_def mm_king_square_def
  mm_castle_rook_def mm_castling_rights_def mm_en_passant_def mm_halfmove_def
  mm_switch_side_def mm_store_position_def

lemmas um_defs = um_move_back_def um_restore_captured_def um_castle_rook_def
  um_king_square_def um_restore_state_def um_pop_position_def

lemma mm_history [simp]:
  "pos_history (mm_lift_piece b m p) = pos_history b"
  "pos_history_count (mm_lift_piece b m p) = pos_history_count b"
  "pos_history (mm_remove_captured b m) = pos_history b"
  "pos_history_count (mm_remove_captured b m) = pos_history_count b"
  "pos_history (mm_place b m p) = pos_history b"
  "pos_history_count (mm_place b m p) = pos_history_count b"
  "pos_history (mm_king_square b m pt s) = pos_history b"
  "pos_history_count (mm_king_square b m pt s) = pos_history_count b"
  "pos_history (mm_castle_rook b m s) = pos_history b"
  "pos_history_count (mm_castle_rook b m s) = pos_history_count b"
  "pos_history (mm_castling_rights b m pt s) = pos_history b"
  "pos_history_count (mm_castling_rights b m pt s) = pos_history_count b"
  "pos_history (mm_en_passant b m pt) = pos_history b"
  "pos_history_count (mm_en_passant b m pt) = pos_history_count b"
  "pos_history (mm_halfmove b m pt) = pos_history b"
  "pos_history_count (mm_halfmove b m pt) = pos_history_count b"
  "pos_history (mm_switch_side b) = pos_history b"
  "pos_history_count (mm_switch_side b) = pos_history_count b"
  by (simp_all add: mm_defs Let_def)

lemma um_history [simp]:
  "pos_history (um_move_back b m p) = pos_history b"
  "pos_history_count (um_move_back b m p) = pos_history_count b"
  "pos_history (um_restore_captured b m) = pos_history b"
  "pos_history_count (um_restore_captured b m) = pos_history_count b"
  "pos_history (um_castle_rook b m) = pos_history b"
  "pos_history_count (um_castle_rook b m) = pos_history_count b"
  "pos_history (um_king_square b m pt) = pos_history b"
  "pos_history_count (um_king_square b m pt) = pos_history_count b"
  "pos_history (um_restore_state b u) = pos_history b"
  "pos_history_count (um_restore_state b u) = pos_history_count b"
  by (simp_all add: um_defs Let_def)

lemma make_move_count:
  "pos_history_count (fst (make_move b m)) =
     (if pos_history_count b < MAX_HISTORY then pos_history_count b + 1 else pos_history_count b)"
  by (simp add: make_move_def Let_def mm_store_position_def)

lemma make_move_history:
  "pos_history (fst (make_move b m)) =
     (if pos_history_count b < MAX_HISTORY
      then (pos_history b)[nat (pos_history_count b) := hash (fst (make_move b m))]
      else pos_history b)"
  by (simp add: make_move_def Let_def mm_store_position_def)

lemma unmake_move_count:
  "pos_history_count (unmake_move b m u) =
     (if pos_history_count b > 0 then pos_history_count b - 1 else pos_history_count b)"
  by (simp add: unmake_move_def Let_def um_pop_position_def)

lemma unmake_move_history: "pos_history (unmake_move b m u) = pos_history b"
  by (simp add: unmake_move_def Let_def um_pop_position_def)

lemma null_move_history:
  "pos_history (fst (make_null_move b u)) = pos_history b"
  "pos_history_count (fst (make_null_move b u)) = pos_history_count b"
  "pos_history (unmake_null_move b u) = pos_history b"
  "pos_history_count (unmake_null_move b u) = pos_history_count b"
  by (simp_all add: make_null_move_def unmake_null_move_def Let_def)

section \<open>The position-history buffer\<close>

lemma apply_op_in_bounds: "history_in_bounds b \<Longrightarrow> history_in_bounds (apply_op b op)"
  by (cases op)
     (auto simp: history_in_bounds_def make_move_count make_move_history unmake_move_count
        unmake_move_history null_move_history MAX_HISTORY_def)

lemma run_ops_in_bounds: "history_in_bounds b \<Longrightarrow> history_in_bounds (run_ops b ops)"
  unfolding run_ops_def
  by (induction ops arbitrary: b) (simp_all add: apply_op_in_bounds)

text \<open>
  Claim C10. On a board whose history buffer has its 1024 cells and a count within
  \<open>0..1024\<close>: \<open>make_move\<close> writes the new hash at index \<open>pos_history_count\<close> and
  increments the count only when the count is below 1024, an index inside the buffer,
  and otherwise leaves buffer and count alone; \<open>unmake_move\<close> decrements the count only
  when it is positive and never writes the buffer; the indices \<open>count_repetitions\<close> reads
  (\<open>0 \<le> i \<le> count - 3\<close>) are inside the buffer; and after any sequence of make, unmake
  and null-move operations, with any moves and undo records, the buffer still has 1024
  cells and the count is still within \<open>0..1024\<close>.
\<close>

theorem history_buffer_in_bounds:
  "history_in_bounds b \<Longrightarrow>
     history_in_bounds (run_ops b ops)
   \<and> pos_history_count (fst (make_move b m)) =
       (if pos_history_count b < 1024 then pos_history_count b + 1 else pos_history_count b)
   \<and> pos_history (fst (make_move b m)) =
       (if pos_history_count b < 1024
        then (pos_history b)[nat (pos_history_count b) := hash (fst (make_move b m))]
        else pos_history b)
   \<and> (pos_history_count b < 1024 \<longrightarrow> nat (pos_history_count b) < length (pos_history b))
   \<and> pos_history_count (unmake_move b m u) =
       (if pos_history_count b > 0 then pos_history_count b - 1 else pos_history_count b)
   \<and> pos_history (unmake_move b m u) = pos_history b
   \<and> (\<forall>i. 0 \<le> i \<and> i \<le> pos_history_count b - 3 \<longrightarrow> nat i < length (pos_history b))"
proof -
  assume ok: "history_in_bounds b"
  have 1: "history_in_bounds (run_ops b ops)"
    using ok by (rule run_ops_in_bounds)
  have 2: "pos_history_count b < 1024 \<longrightarrow> nat (pos_history_count b) < length (pos_history b)"
    using ok by (auto simp: history_in_bounds_def MAX_HISTORY_def)
  have 3: "\<forall>i. 0 \<le> i \<and> i \<le> pos_history_count b - 3 \<longrightarrow> nat i < length (pos_history b)"
    using ok by (auto simp: history_in_bounds_def MAX_HISTORY_def)
  show ?thesis
    using 1 2 3
    by (simp add: make_move_count make_move_history unmake_move_count unmake_move_history
        MAX_HISTORY_def)
qed

theorem history_buffer_in_bounds_witness:
  "history_in_bounds ex_full_board
   \<and> pos_history_count (fst (make_move ex_full_board null_Move)) = 1024
   \<and> pos_history_count (unmake_move ex_full_board null_Move ex_undo) = 1023
   \<and> history_in_bounds (run_ops ex_full_board
        [Make null_Move, Unmake null_Move ex_undo, UnmakeNull ex_undo, Make null_Move])
   \<and> history_in_bounds Board_init
   \<and> pos_history_count (fst (make_move Board_init null_Move)) = 1
   \<and> pos_history_count (unmake_move Board_init null_Move ex_undo) = 0"
proof -
  have a: "history_in_bounds ex_full_board"
    by (simp add: history_in_bounds_def ex_full_board_def Board_init_def MAX_HISTORY_def)
  have c: "history_in_bounds Board_init"
    by (simp add: history_in_bounds_def Board_init_def MAX_HISTORY_def)
  have d: "pos_history_count ex_full_board = 1024" "pos_history_count Board_init = 0"
    by (simp_all add: ex_full_board_def Board_init_def)
  show ?thesis
    using history_buffer_in_bounds [OF a, of
        "[Make null_Move, Unmake null_Move ex_undo, UnmakeNull ex_undo, Make null_Move]"
        null_Move ex_undo]
      history_buffer_in_bounds [OF c, of "[]" null_Move ex_undo] a c d
    by simp
qed

section \<open>Flags of generated moves\<close>

lemma mk_move_flags [simp]: "flags (mk_move f t c p fl) = u8 fl"
  and mk_move_from [simp]: "mfrom (mk_move f t c p fl) = u8 f"
  and mk_move_to [simp]: "mto (mk_move f t c p fl) = u8 t"
  and mk_move_cap [simp]: "captured (mk_move f t c p fl) = s8 c"
  and mk_move_promo [simp]: "promotion (mk_move f t c p fl) = s8 p"
  by (simp_all add: mk_move_def)

lemma u8_small [simp]: "u8 0 = 0" "u8 1 = 1" "u8 2 = 2" "u8 4 = 4"
  by (simp_all add: u8_def)

lemma s8_0 [simp]: "s8 0 = 0"
  by (simp add: s8_def)

lemma mk_move_eq:
  "mk_move f t c p fl = mk_move f' t' c' p' fl' \<longleftrightarrow>
     u8 f = u8 f' \<and> u8 t = u8 t' \<and> s8 c = s8 c' \<and> s8 p = s8 p' \<and> u8 fl = u8 fl'"
  by (auto simp: mk_move_def)

lemma pawn_forward_flags: "m \<in> set (pawn_forward b sq) \<Longrightarrow> flags m = 0 \<or> flags m = 4"
  unfolding pawn_forward_def Let_def
  by (auto simp: FL_DOUBLE_def split: if_splits)

lemma pawn_capture_flags: "m \<in> set (pawn_capture b sq cd cf) \<Longrightarrow> flags m = 0 \<or> flags m = 2"
  unfolding pawn_capture_def Let_def
  by (auto simp: FL_EP_def split: if_splits)

lemma pawn_moves_flags:
  "m \<in> set (pawn_moves_from b sq) \<Longrightarrow> flags m = 0 \<or> flags m = 2 \<or> flags m = 4"
  unfolding pawn_moves_from_def
  by (auto dest: pawn_forward_flags pawn_capture_flags)

lemma slide_moves_flags: "m \<in> set (slide_moves b sq d to) \<Longrightarrow> flags m = 0"
proof (induction b sq d to rule: slide_moves.induct)
  case (1 b sq d to)
  from "1.prems" show ?case
    apply (subst (asm) slide_moves.simps)
    apply (simp split: if_splits)
    using "1.IH" apply auto
    done
qed

lemma step_moves_flags: "m \<in> set (step_moves_from b sq r ds) \<Longrightarrow> flags m = 0"
  by (auto simp: step_moves_from_def Let_def split: if_splits)

lemma gen_others_flags:
  "m \<in> set (gen_pawn_moves b) \<Longrightarrow> flags m = 0 \<or> flags m = 2 \<or> flags m = 4"
  "m \<in> set (gen_knight_moves b) \<Longrightarrow> flags m = 0"
  "m \<in> set (gen_slider_moves b pt) \<Longrightarrow> flags m = 0"
  by (auto simp: gen_pawn_moves_def gen_knight_moves_def gen_slider_moves_def
        dest: pawn_moves_flags step_moves_flags slide_moves_flags split: if_splits)

lemma castle_in_pseudo:
  "flags m = 1 \<Longrightarrow> m \<in> set (gen_pseudo_moves b) \<longleftrightarrow> m \<in> set (castle_moves b)"
  by (auto simp: gen_pseudo_moves_def gen_king_moves_def
        dest: gen_others_flags step_moves_flags)

section \<open>Castling in the move generator\<close>

text \<open>
  Claim C6. The pseudo-legal generator emits a move with the castling flag only from
  the castling block of \<open>gen_king_moves\<close>, and each of the four castling moves exactly
  under its condition: the side to move (white for e1g1 and e1c1, otherwise black), the
  rights bit set, the squares between king and rook empty (f and g, or d, c and b), and
  no attack by the opponent on the king's square \<open>king_sq[side]\<close>, on the transit square
  (f or d) and on the destination (g or c). The b-file square enters the queenside
  condition only through its emptiness: no attack test on b1 or b8 is part of it.
\<close>

theorem castling_generation:
  "(mk_move 4 6 0 0 FL_CASTLE \<in> set (gen_pseudo_moves b) \<longleftrightarrow>
      side b = WHITE_SIDE \<and> castling b AND 1 \<noteq> 0 \<and> board b ! 5 = 0 \<and> board b ! 6 = 0 \<and>
      \<not> is_attacked b (king_sq b ! nat (side b)) (side b XOR 1) \<and>
      \<not> is_attacked b 5 BLACK_SIDE \<and> \<not> is_attacked b 6 BLACK_SIDE)
   \<and> (mk_move 4 2 0 0 FL_CASTLE \<in> set (gen_pseudo_moves b) \<longleftrightarrow>
      side b = WHITE_SIDE \<and> castling b AND 2 \<noteq> 0 \<and>
      board b ! 3 = 0 \<and> board b ! 2 = 0 \<and> board b ! 1 = 0 \<and>
      \<not> is_attacked b (king_sq b ! nat (side b)) (side b XOR 1) \<and>
      \<not> is_attacked b 3 BLACK_SIDE \<and> \<not> is_attacked b 2 BLACK_SIDE)
   \<and> (mk_move 60 62 0 0 FL_CASTLE \<in> set (gen_pseudo_moves b) \<longleftrightarrow>
      side b \<noteq> WHITE_SIDE \<and> castling b AND 4 \<noteq> 0 \<and> board b ! 61 = 0 \<and> board b ! 62 = 0 \<and>
      \<not> is_attacked b (king_sq b ! nat (side b)) (side b XOR 1) \<and>
      \<not> is_attacked b 61 WHITE_SIDE \<and> \<not> is_attacked b 62 WHITE_SIDE)
   \<and> (mk_move 60 58 0 0 FL_CASTLE \<in> set (gen_pseudo_moves b) \<longleftrightarrow>
      side b \<noteq> WHITE_SIDE \<and> castling b AND 8 \<noteq> 0 \<and>
      board b ! 59 = 0 \<and> board b ! 58 = 0 \<and> board b ! 57 = 0 \<and>
      \<not> is_attacked b (king_sq b ! nat (side b)) (side b XOR 1) \<and>
      \<not> is_attacked b 59 WHITE_SIDE \<and> \<not> is_attacked b 58 WHITE_SIDE)
   \<and> (\<forall>m \<in> set (gen_pseudo_moves b). flags m AND FL_CASTLE \<noteq> 0 \<longrightarrow>
        m \<in> {mk_move 4 6 0 0 FL_CASTLE, mk_move 4 2 0 0 FL_CASTLE,
              mk_move 60 62 0 0 FL_CASTLE, mk_move 60 58 0 0 FL_CASTLE})"
proof -
  have f: "\<And>f t. flags (mk_move f t 0 0 FL_CASTLE) = 1" by (simp add: FL_CASTLE_def)
  have 1: "\<And>f t. mk_move f t 0 0 FL_CASTLE \<in> set (gen_pseudo_moves b) \<longleftrightarrow>
              mk_move f t 0 0 FL_CASTLE \<in> set (castle_moves b)"
    by (rule castle_in_pseudo[OF f])
  have 2: "\<forall>m \<in> set (gen_pseudo_moves b). flags m AND FL_CASTLE \<noteq> 0 \<longrightarrow>
             m \<in> set (castle_moves b)"
    by (auto simp: gen_pseudo_moves_def gen_king_moves_def FL_CASTLE_def
        dest: gen_others_flags step_moves_flags)
  have u: "u8 6 = 6" "u8 60 = 60" "u8 62 = 62" "u8 58 = 58"
    by (simp_all add: u8_def)
  show ?thesis unfolding 1
    using 2 by (auto simp: castle_moves_def Let_def mk_move_eq u split: if_splits)
qed

theorem castling_generation_witness:
  "mk_move 4 6 0 0 FL_CASTLE \<in> set (gen_pseudo_moves ex_castle_board)
   \<and> mk_move 4 2 0 0 FL_CASTLE \<in> set (gen_pseudo_moves ex_castle_board)
   \<and> mk_move 60 62 0 0 FL_CASTLE \<notin> set (gen_pseudo_moves ex_castle_board)
   \<and> board ex_castle_board ! 1 = 0
   \<and> is_attacked ex_castle_board 1 BLACK_SIDE"
proof -
  have k: "side ex_castle_board = WHITE_SIDE \<and> castling ex_castle_board AND 1 \<noteq> 0 \<and>
      board ex_castle_board ! 5 = 0 \<and> board ex_castle_board ! 6 = 0 \<and>
      \<not> is_attacked ex_castle_board (king_sq ex_castle_board ! nat (side ex_castle_board))
          (side ex_castle_board XOR 1) \<and>
      \<not> is_attacked ex_castle_board 5 BLACK_SIDE \<and> \<not> is_attacked ex_castle_board 6 BLACK_SIDE"
    by code_simp
  have q: "side ex_castle_board = WHITE_SIDE \<and> castling ex_castle_board AND 2 \<noteq> 0 \<and>
      board ex_castle_board ! 3 = 0 \<and> board ex_castle_board ! 2 = 0 \<and>
      board ex_castle_board ! 1 = 0 \<and>
      \<not> is_attacked ex_castle_board (king_sq ex_castle_board ! nat (side ex_castle_board))
          (side ex_castle_board XOR 1) \<and>
      \<not> is_attacked ex_castle_board 3 BLACK_SIDE \<and> \<not> is_attacked ex_castle_board 2 BLACK_SIDE"
    by code_simp
  have a: "is_attacked ex_castle_board 1 BLACK_SIDE"
    by code_simp
  show ?thesis
    using castling_generation [of ex_castle_board] k q a by blast
qed

section \<open>The phase test of the evaluation\<close>

lemma is_endgame_fold:
  "fold (\<lambda>sq (queens, minors).
           let pt = piece_type (brd ! nat sq);
               queens1 = (if pt = PT_QUEEN then queens + 1 else queens);
               minors1 = (if pt = PT_KNIGHT \<or> pt = PT_BISHOP then minors + 1 else minors)
           in (queens1, minors1)) xs (q, mn)
   = (q + int (length (filter (\<lambda>sq. piece_type (brd ! nat sq) = PT_QUEEN) xs)),
      mn + int (length (filter (\<lambda>sq. piece_type (brd ! nat sq) = PT_KNIGHT
                                     \<or> piece_type (brd ! nat sq) = PT_BISHOP) xs)))"
  by (induction xs arbitrary: q mn) (simp_all add: Let_def)

lemma length_filter_type:
  "t > 0 \<Longrightarrow> length (filter (\<lambda>sq. piece_type (brd ! nat sq) = t) xs)
   = length (filter (\<lambda>sq. brd ! nat sq = t) xs) + length (filter (\<lambda>sq. brd ! nat sq = - t) xs)"
  by (induction xs) (auto simp: piece_type_def)

lemma length_filter_minor:
  "length (filter (\<lambda>sq. piece_type (brd ! nat sq) = PT_KNIGHT
                        \<or> piece_type (brd ! nat sq) = PT_BISHOP) xs)
   = length (filter (\<lambda>sq. brd ! nat sq = 2) xs) + length (filter (\<lambda>sq. brd ! nat sq = -2) xs)
   + length (filter (\<lambda>sq. brd ! nat sq = 3) xs) + length (filter (\<lambda>sq. brd ! nat sq = -3) xs)"
  by (induction xs) (auto simp: piece_type_def PT_KNIGHT_def PT_BISHOP_def)

lemma is_endgame_counts:
  "is_endgame b \<longleftrightarrow>
     num_pieces b 5 + num_pieces b (-5) = 0 \<or>
     (num_pieces b 5 + num_pieces b (-5) \<le> 2 \<and>
      num_pieces b 2 + num_pieces b (-2) + num_pieces b 3 + num_pieces b (-3) \<le> 2)"
proof -
  define q where "q = length (filter (\<lambda>sq. piece_type (board b ! nat sq) = PT_QUEEN) [0..63])"
  define mn where "mn = length (filter (\<lambda>sq. piece_type (board b ! nat sq) = PT_KNIGHT
                                     \<or> piece_type (board b ! nat sq) = PT_BISHOP) [0..63])"
  have e: "is_endgame b \<longleftrightarrow> int q = 0 \<or> (int q \<le> 2 \<and> int mn \<le> 2)"
    unfolding is_endgame_def is_endgame_fold q_def mn_def by simp
  have q: "q = num_pieces b 5 + num_pieces b (-5)"
    unfolding q_def num_pieces_def PT_QUEEN_def
    using length_filter_type[of 5 "board b" "[0..63]"] by simp
  have mn: "mn = num_pieces b 2 + num_pieces b (-2) + num_pieces b 3 + num_pieces b (-3)"
    unfolding mn_def num_pieces_def by (rule length_filter_minor)
  show ?thesis unfolding e q[symmetric] mn[symmetric] by auto
qed

text \<open>
  Claim C4 as stated fails: on \<open>ex_phase_board\<close> white has no queen, so the stated test
  (either side has no queens, or both sides have at most 2 queens and at most 2 minors
  each) says endgame, while \<open>is_endgame\<close> counts the one queen and three minor pieces of
  the whole board and says middlegame.
\<close>

theorem endgame_as_claimed_counterexample:
  "endgame_as_claimed ex_phase_board \<and> \<not> is_endgame ex_phase_board"
  by code_simp

text \<open>
  Claim C4, amended. \<open>is_endgame\<close> holds exactly when the whole board holds no queen, or
  the two sides together hold at most 2 queens and at most 2 minor pieces (knights and
  bishops). \<open>evaluate\<close> uses that one value throughout: a king is scored from the
  endgame king table when it holds and from the middlegame table otherwise, and the
  pawn-shield term is added only when it does not hold.
\<close>

theorem is_endgame_spec:
  "(is_endgame b \<longleftrightarrow>
      num_pieces b 5 + num_pieces b (-5) = 0 \<or>
      (num_pieces b 5 + num_pieces b (-5) \<le> 2 \<and>
       num_pieces b 2 + num_pieces b (-2) + num_pieces b 3 + num_pieces b (-3) \<le> 2))
   \<and> evaluate b = evaluate_phase b (is_endgame b)
   \<and> pst_for (is_endgame b) PT_KING = Some (if is_endgame b then PST_KING_EG else PST_KING_MG)
   \<and> eval_king_safety b (is_endgame b) sc =
       (if is_endgame b then sc
        else sc + king_shield b WHITE_SIDE * 10 - king_shield b BLACK_SIDE * 10)"
proof -
  have 1: "pst_for (is_endgame b) PT_KING =
             Some (if is_endgame b then PST_KING_EG else PST_KING_MG)"
    by (simp add: pst_for_def PST_TABLE_def PT_KING_def)
  have u: "[0..1] = [0, 1 :: int]"
    by (simp add: upto_rec1)
  have 2: "eval_king_safety b (is_endgame b) sc =
       (if is_endgame b then sc
        else sc + king_shield b WHITE_SIDE * 10 - king_shield b BLACK_SIDE * 10)"
    by (simp add: eval_king_safety_def u WHITE_SIDE_def BLACK_SIDE_def)
  show ?thesis
    using is_endgame_counts[of b] 1 2 by (simp add: evaluate_def)
qed

theorem is_endgame_spec_witness:
  "is_endgame ex_kings_board
   \<and> num_pieces ex_kings_board 5 + num_pieces ex_kings_board (-5) = 0
   \<and> pst_for (is_endgame ex_kings_board) PT_KING = Some PST_KING_EG
   \<and> \<not> is_endgame ex_phase_board
   \<and> num_pieces ex_phase_board 5 + num_pieces ex_phase_board (-5) = 1
   \<and> num_pieces ex_phase_board 2 + num_pieces ex_phase_board (-2) +
       num_pieces ex_phase_board 3 + num_pieces ex_phase_board (-3) = 3
   \<and> pst_for (is_endgame ex_phase_board) PT_KING = Some PST_KING_MG"
proof -
  have a: "num_pieces ex_kings_board 5 + num_pieces ex_kings_board (-5) = 0"
    by code_simp
  have c: "num_pieces ex_phase_board 5 + num_pieces ex_phase_board (-5) = 1"
    by code_simp
  have d: "num_pieces ex_phase_board 2 + num_pieces ex_phase_board (-2) +
       num_pieces ex_phase_board 3 + num_pieces ex_phase_board (-3) = 3"
    by code_simp
  have k: "is_endgame ex_kings_board"
    using is_endgame_spec [of ex_kings_board 0] a by simp
  have p: "\<not> is_endgame ex_phase_board"
    using is_endgame_spec [of ex_phase_board 0] c d by simp
  have kt: "pst_for (is_endgame ex_kings_board) PT_KING = Some PST_KING_EG"
    using is_endgame_spec [of ex_kings_board 0] k by metis
  have pt: "pst_for (is_endgame ex_phase_board) PT_KING = Some PST_KING_MG"
    using is_endgame_spec [of ex_phase_board 0] p by metis
  show ?thesis
    using a c d k p kt pt by blast
qed
section \<open>Squares, and the field-wise effect of make and unmake\<close>

lemma sq_file_mod: "sq_file s = s mod 8"
proof -
  have "s AND mask 3 = s mod 2 ^ 3" by (simp flip: take_bit_eq_mask add: take_bit_eq_mod)
  then show ?thesis by (simp add: sq_file_def mask_eq_exp_minus_1)
qed

lemma sq_rank_div: "sq_rank s = s div 8"
  by (simp add: sq_rank_def drop_bit_eq_div)

lemma make_sq_add: "0 \<le> f \<Longrightarrow> f < 8 \<Longrightarrow> make_sq f r = 8 * r + f"
proof -
  assume f: "0 \<le> f" "f < 8"
  have "push_bit 3 r OR f = push_bit 3 r + f"
  proof (rule disjunctive_add[symmetric])
    fix n
    show "\<not> bit (push_bit 3 r) n \<or> \<not> bit f n"
    proof (cases "n < 3")
      case True then show ?thesis by (simp add: bit_push_bit_iff)
    next
      case False
      then have "2 ^ 3 \<le> (2::int) ^ n" by (intro power_increasing) auto
      with f have "f < 2 ^ n" by simp
      with f have "\<not> bit f n" by (simp add: bit_iff_odd)
      then show ?thesis by simp
    qed
  qed
  then show ?thesis by (simp add: make_sq_def push_bit_eq_mult)
qed

lemma mm_unchanged [simp]:
  "side (mm_lift_piece b m p) = side b"
  "castling (mm_lift_piece b m p) = castling b"
  "ep_square (mm_lift_piece b m p) = ep_square b"
  "halfmove (mm_lift_piece b m p) = halfmove b"
  "fullmove (mm_lift_piece b m p) = fullmove b"
  "king_sq (mm_lift_piece b m p) = king_sq b"
  "side (mm_remove_captured b m) = side b"
  "castling (mm_remove_captured b m) = castling b"
  "ep_square (mm_remove_captured b m) = ep_square b"
  "halfmove (mm_remove_captured b m) = halfmove b"
  "fullmove (mm_remove_captured b m) = fullmove b"
  "king_sq (mm_remove_captured b m) = king_sq b"
  "side (mm_place b m p) = side b"
  "castling (mm_place b m p) = castling b"
  "ep_square (mm_place b m p) = ep_square b"
  "halfmove (mm_place b m p) = halfmove b"
  "fullmove (mm_place b m p) = fullmove b"
  "king_sq (mm_place b m p) = king_sq b"
  "board (mm_king_square b m pt s) = board b"
  "side (mm_king_square b m pt s) = side b"
  "castling (mm_king_square b m pt s) = castling b"
  "ep_square (mm_king_square b m pt s) = ep_square b"
  "halfmove (mm_king_square b m pt s) = halfmove b"
  "fullmove (mm_king_square b m pt s) = fullmove b"
  "hash (mm_king_square b m pt s) = hash b"
  "side (mm_castle_rook b m s) = side b"
  "castling (mm_castle_rook b m s) = castling b"
  "ep_square (mm_castle_rook b m s) = ep_square b"
  "halfmove (mm_castle_rook b m s) = halfmove b"
  "fullmove (mm_castle_rook b m s) = fullmove b"
  "king_sq (mm_castle_rook b m s) = king_sq b"
  "board (mm_castling_rights b m pt s) = board b"
  "side (mm_castling_rights b m pt s) = side b"
  "ep_square (mm_castling_rights b m pt s) = ep_square b"
  "halfmove (mm_castling_rights b m pt s) = halfmove b"
  "fullmove (mm_castling_rights b m pt s) = fullmove b"
  "king_sq (mm_castling_rights b m pt s) = king_sq b"
  "board (mm_en_passant b m pt) = board b"
  "side (mm_en_passant b m pt) = side b"
  "castling (mm_en_passant b m pt) = castling b"
  "halfmove (mm_en_passant b m pt) = halfmove b"
  "fullmove (mm_en_passant b m pt) = fullmove b"
  "king_sq (mm_en_passant b m pt) = king_sq b"
  "board (mm_halfmove b m pt) = board b"
  "side (mm_halfmove b m pt) = side b"
  "castling (mm_halfmove b m pt) = castling b"
  "ep_square (mm_halfmove b m pt) = ep_square b"
  "fullmove (mm_halfmove b m pt) = fullmove b"
  "hash (mm_halfmove b m pt) = hash b"
  "king_sq (mm_halfmove b m pt) = king_sq b"
  "board (mm_switch_side b) = board b"
  "castling (mm_switch_side b) = castling b"
  "ep_square (mm_switch_side b) = ep_square b"
  "halfmove (mm_switch_side b) = halfmove b"
  "king_sq (mm_switch_side b) = king_sq b"
  "board (mm_store_position b) = board b"
  "side (mm_store_position b) = side b"
  "castling (mm_store_position b) = castling b"
  "ep_square (mm_store_position b) = ep_square b"
  "halfmove (mm_store_position b) = halfmove b"
  "fullmove (mm_store_position b) = fullmove b"
  "hash (mm_store_position b) = hash b"
  "king_sq (mm_store_position b) = king_sq b"
  by (simp_all add: mm_defs Let_def)

lemma um_unchanged [simp]:
  "side (um_move_back b m p) = side b"
  "castling (um_move_back b m p) = castling b"
  "ep_square (um_move_back b m p) = ep_square b"
  "halfmove (um_move_back b m p) = halfmove b"
  "fullmove (um_move_back b m p) = fullmove b"
  "hash (um_move_back b m p) = hash b"
  "king_sq (um_move_back b m p) = king_sq b"
  "side (um_restore_captured b m) = side b"
  "castling (um_restore_captured b m) = castling b"
  "ep_square (um_restore_captured b m) = ep_square b"
  "halfmove (um_restore_captured b m) = halfmove b"
  "fullmove (um_restore_captured b m) = fullmove b"
  "hash (um_restore_captured b m) = hash b"
  "king_sq (um_restore_captured b m) = king_sq b"
  "side (um_castle_rook b m) = side b"
  "castling (um_castle_rook b m) = castling b"
  "ep_square (um_castle_rook b m) = ep_square b"
  "halfmove (um_castle_rook b m) = halfmove b"
  "fullmove (um_castle_rook b m) = fullmove b"
  "hash (um_castle_rook b m) = hash b"
  "king_sq (um_castle_rook b m) = king_sq b"
  "board (um_king_square b m pt) = board b"
  "side (um_king_square b m pt) = side b"
  "castling (um_king_square b m pt) = castling b"
  "ep_square (um_king_square b m pt) = ep_square b"
  "halfmove (um_king_square b m pt) = halfmove b"
  "fullmove (um_king_square b m pt) = fullmove b"
  "hash (um_king_square b m pt) = hash b"
  "board (um_restore_state b u) = board b"
  "side (um_restore_state b u) = side b"
  "king_sq (um_restore_state b u) = king_sq b"
  "board (um_pop_position b) = board b"
  "side (um_pop_position b) = side b"
  "castling (um_pop_position b) = castling b"
  "ep_square (um_pop_position b) = ep_square b"
  "halfmove (um_pop_position b) = halfmove b"
  "fullmove (um_pop_position b) = fullmove b"
  "hash (um_pop_position b) = hash b"
  "king_sq (um_pop_position b) = king_sq b"
  "pos_history (um_pop_position b) = pos_history b"
  by (simp_all add: um_defs Let_def)

lemma mm_changed [simp]:
  "board (mm_lift_piece b m p) = (board b)[nat (mfrom m) := 0]"
  "hash (mm_lift_piece b m p) = hash b XOR Z_PIECE (piece_index p) (mfrom m)"
  "board (mm_remove_captured b m) =
     (if captured m \<noteq> 0 \<and> flags m AND FL_EP \<noteq> 0
      then (board b)[nat (make_sq (sq_file (mto m)) (sq_rank (mfrom m))) := 0] else board b)"
  "hash (mm_remove_captured b m) =
     (if captured m \<noteq> 0 then
        hash b XOR Z_PIECE (piece_index (captured m))
          (if flags m AND FL_EP \<noteq> 0 then make_sq (sq_file (mto m)) (sq_rank (mfrom m))
           else mto m)
      else hash b)"
  "board (mm_place b m p) = (board b)[nat (mto m) := (if promotion m \<noteq> 0 then promotion m else p)]"
  "hash (mm_place b m p) =
     hash b XOR Z_PIECE (piece_index (if promotion m \<noteq> 0 then promotion m else p)) (mto m)"
  "king_sq (mm_king_square b m pt s) =
     (if pt = PT_KING then (king_sq b)[nat s := mto m] else king_sq b)"
  "castling (mm_castling_rights b m pt s) = mm_new_castling (castling b) m pt s"
  "hash (mm_castling_rights b m pt s) =
     hash b XOR Z_CASTLE (castling b) XOR Z_CASTLE (mm_new_castling (castling b) m pt s)"
  "ep_square (mm_en_passant b m pt) =
     (if flags m AND FL_DOUBLE \<noteq> 0 \<and> pt = PT_PAWN then (mfrom m + mto m) div 2 else -1)"
  "halfmove (mm_halfmove b m pt) =
     (if pt = PT_PAWN \<or> captured m \<noteq> 0 then 0 else halfmove b + 1)"
  "side (mm_switch_side b) = side b XOR 1"
  "hash (mm_switch_side b) = hash b XOR Z_SIDE"
  "fullmove (mm_switch_side b) =
     (if side b XOR 1 = WHITE_SIDE then fullmove b + 1 else fullmove b)"
  by (simp_all add: mm_defs Let_def)

lemma mm_castle_rook_board:
  "board (mm_castle_rook b m s) =
     (if flags m AND FL_CASTLE \<noteq> 0 then
        (if sq_file (mto m) = 6
         then (board b)[nat (make_sq 7 (sq_rank (mfrom m))) := 0,
                        nat (make_sq 5 (sq_rank (mfrom m))) := piece_sign s * PT_ROOK]
         else (board b)[nat (make_sq 0 (sq_rank (mfrom m))) := 0,
                        nat (make_sq 3 (sq_rank (mfrom m))) := piece_sign s * PT_ROOK])
      else board b)"
  by (simp add: mm_defs Let_def)

lemma mm_castle_rook_hash:
  "hash (mm_castle_rook b m s) =
     (if flags m AND FL_CASTLE \<noteq> 0 then
        (if sq_file (mto m) = 6
         then hash b XOR Z_PIECE (piece_index (piece_sign s * PT_ROOK)) (make_sq 7 (sq_rank (mfrom m)))
                     XOR Z_PIECE (piece_index (piece_sign s * PT_ROOK)) (make_sq 5 (sq_rank (mfrom m)))
         else hash b XOR Z_PIECE (piece_index (piece_sign s * PT_ROOK)) (make_sq 0 (sq_rank (mfrom m)))
                     XOR Z_PIECE (piece_index (piece_sign s * PT_ROOK)) (make_sq 3 (sq_rank (mfrom m))))
      else hash b)"
  by (simp add: mm_defs Let_def)

lemma mm_en_passant_hash:
  "hash (mm_en_passant b m pt) =
     (let h1 = (if ep_square b \<ge> 0 then hash b XOR Z_EP (sq_file (ep_square b)) else hash b)
      in if flags m AND FL_DOUBLE \<noteq> 0 \<and> pt = PT_PAWN
         then h1 XOR Z_EP (sq_file ((mfrom m + mto m) div 2)) else h1)"
  by (simp add: mm_defs Let_def)

lemma mm_store_position_hash [simp]: "hash (mm_store_position b) = hash b"
  "board (mm_store_position b) = board b" "side (mm_store_position b) = side b"
  "castling (mm_store_position b) = castling b" "ep_square (mm_store_position b) = ep_square b"
  "halfmove (mm_store_position b) = halfmove b" "fullmove (mm_store_position b) = fullmove b"
  "king_sq (mm_store_position b) = king_sq b"
  by (simp_all add: mm_defs)

lemma um_changed [simp]:
  "board (um_move_back b m p) = (board b)[nat (mto m) := 0, nat (mfrom m) := p]"
  "board (um_restore_captured b m) =
     (if captured m \<noteq> 0 then
        (if flags m AND FL_EP \<noteq> 0
         then (board b)[nat (make_sq (sq_file (mto m)) (sq_rank (mfrom m))) := captured m]
         else (board b)[nat (mto m) := captured m])
      else board b)"
  "king_sq (um_king_square b m pt) =
     (if pt = PT_KING then (king_sq b)[nat (side b) := mfrom m] else king_sq b)"
  "castling (um_restore_state b u) = u_castling u"
  "ep_square (um_restore_state b u) = u_ep_square u"
  "halfmove (um_restore_state b u) = u_halfmove u"
  "hash (um_restore_state b u) = u_hash u"
  "fullmove (um_restore_state b u) = (if side b = BLACK_SIDE then fullmove b - 1 else fullmove b)"
  by (simp_all add: um_defs Let_def)

lemma um_castle_rook_board:
  "board (um_castle_rook b m) =
     (if flags m AND FL_CASTLE \<noteq> 0 then
        (if sq_file (mto m) = 6
         then (board b)[nat (make_sq 7 (sq_rank (mfrom m))) := piece_sign (side b) * PT_ROOK,
                        nat (make_sq 5 (sq_rank (mfrom m))) := 0]
         else (board b)[nat (make_sq 0 (sq_rank (mfrom m))) := piece_sign (side b) * PT_ROOK,
                        nat (make_sq 3 (sq_rank (mfrom m))) := 0])
      else board b)"
  by (simp add: um_defs Let_def)

lemma um_pop_unchanged [simp]:
  "hash (um_pop_position b) = hash b"
  "board (um_pop_position b) = board b" "side (um_pop_position b) = side b"
  "castling (um_pop_position b) = castling b" "ep_square (um_pop_position b) = ep_square b"
  "halfmove (um_pop_position b) = halfmove b" "fullmove (um_pop_position b) = fullmove b"
  "king_sq (um_pop_position b) = king_sq b" "pos_history (um_pop_position b) = pos_history b"
  by (simp_all add: um_defs)

text \<open>Projections of the whole make and unmake.\<close>

lemma make_move_side: "side (fst (make_move b m)) = side b XOR 1"
  by (simp add: make_move_def Let_def)

lemma make_move_king_sq:
  "king_sq (fst (make_move b m)) =
     (if piece_type (board b ! nat (mfrom m)) = PT_KING
      then (king_sq b)[nat (piece_side (board b ! nat (mfrom m))) := mto m] else king_sq b)"
  by (simp add: make_move_def Let_def)

lemma make_move_castling:
  "castling (fst (make_move b m)) =
     mm_new_castling (castling b) m (piece_type (board b ! nat (mfrom m)))
       (piece_side (board b ! nat (mfrom m)))"
  by (simp add: make_move_def Let_def)

lemma make_move_ep:
  "ep_square (fst (make_move b m)) =
     (if flags m AND FL_DOUBLE \<noteq> 0 \<and> piece_type (board b ! nat (mfrom m)) = PT_PAWN
      then (mfrom m + mto m) div 2 else -1)"
  by (simp add: make_move_def Let_def)

lemma make_move_halfmove:
  "halfmove (fst (make_move b m)) =
     (if piece_type (board b ! nat (mfrom m)) = PT_PAWN \<or> captured m \<noteq> 0 then 0
      else halfmove b + 1)"
  by (simp add: make_move_def Let_def)

lemma make_move_fullmove:
  "fullmove (fst (make_move b m)) =
     (if side b XOR 1 = WHITE_SIDE then fullmove b + 1 else fullmove b)"
  by (simp add: make_move_def Let_def)

lemma make_move_undo:
  "snd (make_move b m) = \<lparr>u_castling = castling b, u_ep_square = ep_square b,
                          u_halfmove = halfmove b, u_hash = hash b\<rparr>"
  by (simp add: make_move_def Let_def)

lemma make_move_board:
  "board (fst (make_move b m)) =
     board (mm_castle_rook (mm_place (mm_remove_captured
        (mm_lift_piece b m (board b ! nat (mfrom m))) m) m (board b ! nat (mfrom m))) m
        (piece_side (board b ! nat (mfrom m))))"
  by (simp add: make_move_def Let_def mm_castle_rook_board)

lemma unmake_move_fields:
  "side (unmake_move b m u) = side b XOR 1"
  "castling (unmake_move b m u) = u_castling u"
  "ep_square (unmake_move b m u) = u_ep_square u"
  "halfmove (unmake_move b m u) = u_halfmove u"
  "hash (unmake_move b m u) = u_hash u"
  "fullmove (unmake_move b m u) = (if side b XOR 1 = BLACK_SIDE then fullmove b - 1 else fullmove b)"
  by (simp_all add: unmake_move_def Let_def)

section \<open>Pseudo-legal moves have the shape the generator gives them\<close>

lemma u8_id: "0 \<le> x \<Longrightarrow> x < 256 \<Longrightarrow> u8 x = x" by (simp add: u8_def)
lemma s8_id: "-128 \<le> x \<Longrightarrow> x < 128 \<Longrightarrow> s8 x = x"
  by (simp add: s8_def)

lemma wf_len: "wf_board b \<Longrightarrow> length (board b) = 64" by (simp add: wf_board_def)
lemma wf_side: "wf_board b \<Longrightarrow> side b = 0 \<or> side b = 1"
  by (simp add: wf_board_def WHITE_SIDE_def BLACK_SIDE_def)
lemma wf_piece: "wf_board b \<Longrightarrow> 0 \<le> sq \<Longrightarrow> sq < 64 \<Longrightarrow> -6 \<le> board b ! nat sq \<and> board b ! nat sq \<le> 6"
  by (auto simp: wf_board_def list_all_length)

lemma in_upto: "list_all P [0..63] \<longleftrightarrow> (\<forall>sq. 0 \<le> sq \<and> sq \<le> 63 \<longrightarrow> P sq)"
  by (auto simp: list_all_iff)

lemma wf_king:
  "wf_board b \<Longrightarrow> 0 \<le> sq \<Longrightarrow> sq < 64 \<Longrightarrow> (board b ! nat sq = 6) = (sq = king_sq b ! 0)"
  "wf_board b \<Longrightarrow> 0 \<le> sq \<Longrightarrow> sq < 64 \<Longrightarrow> (board b ! nat sq = -6) = (sq = king_sq b ! 1)"
  by (auto simp: wf_board_def in_upto W_KING_def B_KING_def)

lemma step_moves_ok:
  assumes wf: "wf_board b" and sq: "0 \<le> sq" "sq < 64"
    and own: "board b ! nat sq \<noteq> 0" "piece_side (board b ! nat sq) = side b"
    and m: "m \<in> set (step_moves_from b sq r ds)"
  shows "pseudo_ok b m"
proof -
  from m obtain d where d: "d \<in> set ds" and to: "0 \<le> sq + d" "sq + d < 64"
    and mm: "m = mk_move sq (sq + d) (board b ! nat (sq + d)) 0 0"
    and cap: "board b ! nat (sq + d) = 0 \<or> piece_side (board b ! nat (sq + d)) \<noteq> side b"
    and ne: "\<bar>sq_file (sq + d) - sq_file sq\<bar> \<le> r"
    by (auto simp: step_moves_from_def Let_def split: if_splits)
  have d0: "d \<noteq> 0" using cap own by auto
  from wf_piece[OF wf to] have pr: "-6 \<le> board b ! nat (sq + d)" "board b ! nat (sq + d) \<le> 6"
    by auto
  show ?thesis
    using sq to d0 own cap pr
    by (simp add: pseudo_ok_def ok_plain_def mm u8_id s8_id)
qed


lemma step_captures_sub:
  "set (step_captures_from b sq r ds) \<subseteq> set (step_moves_from b sq r ds)"
  by (auto simp: step_captures_from_def step_moves_from_def Let_def split: if_splits)

lemma slide_moves_ok:
  "m \<in> set (slide_moves b sq d to) \<Longrightarrow> wf_board b \<Longrightarrow> 0 \<le> sq \<Longrightarrow> sq < 64 \<Longrightarrow>
   board b ! nat sq \<noteq> 0 \<Longrightarrow> piece_side (board b ! nat sq) = side b \<Longrightarrow>
   (d > 0 \<longrightarrow> to > sq) \<and> (d < 0 \<longrightarrow> to < sq) \<Longrightarrow> pseudo_ok b m"
proof (induction b sq d to rule: slide_moves.induct)
  case (1 b sq d to)
  note wf = \<open>wf_board b\<close>
  from "1.prems"(1) have in_range: "0 \<le> to" "to < 64" "d \<noteq> 0"
    and nowrap: "\<not> \<bar>sq_file to - sq_file (to - d)\<bar> > 1"
    by (subst (asm) slide_moves.simps, auto split: if_splits)+
  have ne: "to \<noteq> sq" using "1.prems"(7) in_range(3) by auto
  from wf_piece[OF wf in_range(1,2)]
  have pr: "-6 \<le> board b ! nat to" "board b ! nat to \<le> 6" by auto
  show ?case
  proof (cases "board b ! nat to = 0")
    case True
    with "1.prems"(1) in_range nowrap
    have "m = mk_move sq to 0 0 0 \<or> m \<in> set (slide_moves b sq d (to + d))"
      by (subst (asm) slide_moves.simps) (auto split: if_splits)
    then show ?thesis
    proof
      assume "m = mk_move sq to 0 0 0"
      then show ?thesis
        using "1.prems" in_range True ne
        by (simp add: pseudo_ok_def ok_plain_def u8_id s8_id)
    next
      assume r: "m \<in> set (slide_moves b sq d (to + d))"
      have "(d > 0 \<longrightarrow> to + d > sq) \<and> (d < 0 \<longrightarrow> to + d < sq)"
        using "1.prems"(7) by auto
      with "1.IH"[OF _ _ True r] in_range nowrap "1.prems"
      show ?thesis by auto
    qed
  next
    case False
    with "1.prems"(1) in_range nowrap
    have mm: "m = mk_move sq to (board b ! nat to) 0 0"
      and en: "piece_side (board b ! nat to) \<noteq> side b"
      by (subst (asm) slide_moves.simps, auto split: if_splits)+
    show ?thesis
      using "1.prems" in_range pr en ne
      by (simp add: pseudo_ok_def ok_plain_def mm u8_id s8_id)
  qed
qed

lemma slide_captures_sub:
  "m \<in> set (slide_captures b sq d to) \<Longrightarrow> m \<in> set (slide_moves b sq d to)"
proof (induction b sq d to rule: slide_captures.induct)
  case (1 b sq d to)
  from "1.prems" show ?case
    apply (subst (asm) slide_captures.simps)
    apply (subst slide_moves.simps)
    using "1.IH" by (auto split: if_splits)
qed


lemma own_pawn:
  "wf_board b \<Longrightarrow> board b ! nat sq = piece_sign (side b) * PT_PAWN \<Longrightarrow>
     board b ! nat sq \<noteq> 0 \<and> piece_side (board b ! nat sq) = side b"
  by (auto simp: wf_board_def piece_sign_def piece_side_def PT_PAWN_def WHITE_SIDE_def
        BLACK_SIDE_def)

lemma sign_vals: "piece_sign sd = 1 \<or> piece_sign sd = -1"
  by (simp add: piece_sign_def)

lemmas pt_defs = PT_PAWN_def PT_KNIGHT_def PT_BISHOP_def PT_ROOK_def PT_QUEEN_def PT_KING_def

lemma pawn_forward_ok:
  assumes wf: "wf_board b" and sq: "0 \<le> sq" "sq < 64"
    and pw: "board b ! nat sq = piece_sign (side b) * PT_PAWN"
    and m: "m \<in> set (pawn_forward b sq)"
  shows "pseudo_ok b m"
proof -
  note own = own_pawn[OF wf pw]
  define to where "to = sq + pawn_dir b"
  from m have t: "0 \<le> to" "to < 64" "board b ! nat to = 0"
    by (auto simp: pawn_forward_def Let_def to_def split: if_splits)
  have ne: "sq \<noteq> to" by (auto simp: to_def pawn_dir_def)
  from m consider
      (promo) "\<exists>pp \<in> {PT_QUEEN, PT_ROOK, PT_BISHOP, PT_KNIGHT}.
                 m = mk_move sq to 0 (piece_sign (side b) * pp) 0"
    | (single) "m = mk_move sq to 0 0 0"
    | (double) "m = mk_move sq (sq + 2 * pawn_dir b) 0 0 FL_DOUBLE"
        "sq_rank sq = pawn_start_rank b" "board b ! nat (sq + 2 * pawn_dir b) = 0"
    by (auto simp: pawn_forward_def Let_def to_def split: if_splits)
  then show ?thesis
  proof cases
    case promo
    then show ?thesis
      using sq t ne own pw sign_vals[of "side b"]
      by (auto simp: pseudo_ok_def ok_plain_def u8_id s8_id pt_defs)
  next
    case single
    then show ?thesis
      using sq t ne own by (simp add: pseudo_ok_def ok_plain_def u8_id s8_id)
  next
    case double
    have r: "0 \<le> sq + 2 * pawn_dir b \<and> sq + 2 * pawn_dir b < 64"
      using double(2) sq
      by (auto simp: pawn_start_rank_def pawn_dir_def sq_rank_div split: if_splits)
    have "ok_double b m"
      using double pw t r sq
      by (simp add: ok_double_def u8_id s8_id FL_DOUBLE_def to_def)
    then show ?thesis
      using r sq own double(1) by (auto simp: pseudo_ok_def u8_id pawn_dir_def)
  qed
qed

lemma mod8_shift1: "(sq + (8 + k)) mod 8 = (sq + k) mod (8::int)"
  by (metis add.assoc add.commute mod_add_self2)

lemma mod8_shift2: "(sq + (-8 + k)) mod 8 = (sq + k) mod (8::int)"
proof -
  have "sq + (-8 + k) = (sq + k) - 8" by simp
  then show ?thesis by (simp only: minus_mod_self2)
qed

lemma mod8_small:
  "0 \<le> sq mod 8 + k \<Longrightarrow> sq mod 8 + k \<le> 7 \<Longrightarrow> (sq + k) mod 8 = sq mod 8 + (k::int)"
proof -
  assume a: "0 \<le> sq mod 8 + k" "sq mod 8 + k \<le> 7"
  have "(sq + k) mod 8 = (sq mod 8 + k) mod 8" by (simp add: mod_add_left_eq)
  also have "\<dots> = sq mod 8 + k" using a by (intro mod_pos_pos_trivial) auto
  finally show ?thesis .
qed

lemma file_step:
  "d = 8 \<or> d = -8 \<Longrightarrow> 0 \<le> sq mod 8 + k \<Longrightarrow> sq mod 8 + k \<le> 7 \<Longrightarrow>
   (sq + (d + k)) mod 8 = sq mod 8 + (k::int)"
  using mod8_shift1 mod8_shift2 mod8_small by metis

lemma pawn_capture_ok:
  assumes wf: "wf_board b" and sq: "0 \<le> sq" "sq < 64"
    and pw: "board b ! nat sq = piece_sign (side b) * PT_PAWN"
    and k: "k = 1 \<or> k = -1"
    and m: "m \<in> set (pawn_capture b sq (pawn_dir b + k) (sq_file sq + k))"
  shows "pseudo_ok b m"
proof -
  note own = own_pawn[OF wf pw]
  define to where "to = sq + (pawn_dir b + k)"
  from m have t: "0 \<le> to" "to < 64" and f: "0 \<le> sq_file sq + k" "sq_file sq + k \<le> 7"
    by (auto simp: pawn_capture_def Let_def to_def split: if_splits)
  have ne: "sq \<noteq> to" using k by (auto simp: to_def pawn_dir_def)
  from wf_piece[OF wf t] have pr: "-6 \<le> board b ! nat to" "board b ! nat to \<le> 6" by auto
  from m consider
      (promo) "board b ! nat to \<noteq> 0" "piece_side (board b ! nat to) \<noteq> side b"
              "\<exists>pp \<in> {PT_QUEEN, PT_ROOK, PT_BISHOP, PT_KNIGHT}.
                 m = mk_move sq to (board b ! nat to) (piece_sign (side b) * pp) 0"
    | (cap) "board b ! nat to \<noteq> 0" "piece_side (board b ! nat to) \<noteq> side b"
            "m = mk_move sq to (board b ! nat to) 0 0"
    | (ep) "to = ep_square b" "m = mk_move sq to (- piece_sign (side b) * PT_PAWN) 0 FL_EP"
    by (auto simp: pawn_capture_def Let_def to_def split: if_splits)
  then show ?thesis
  proof cases
    case promo
    then show ?thesis
      using sq t ne own pw pr sign_vals[of "side b"]
      by (auto simp: pseudo_ok_def ok_plain_def u8_id s8_id pt_defs)
  next
    case cap
    then show ?thesis
      using sq t ne own pr by (simp add: pseudo_ok_def ok_plain_def u8_id s8_id)
  next
    case ep
    have d8: "pawn_dir b = 8 \<or> pawn_dir b = -8" by (simp add: pawn_dir_def)
    have ft: "sq_file to = sq_file sq + k"
      unfolding to_def sq_file_mod by (rule file_step[OF d8 f[unfolded sq_file_mod]])
    have ms: "make_sq (sq_file to) (sq_rank sq) = to - pawn_dir b"
      unfolding ft using f k sq
      by (subst make_sq_add) (auto simp: to_def sq_file_mod sq_rank_div)
    have "ok_ep b m"
      using ep pw ms k sq t sign_vals[of "side b"]
      by (auto simp: ok_ep_def u8_id s8_id FL_EP_def PT_PAWN_def to_def)
    then show ?thesis
      using sq t ne own ep(2) by (auto simp: pseudo_ok_def u8_id)
  qed
qed

lemma castle_moves_cases:
  assumes m: "m \<in> set (castle_moves b)"
  shows "(side b = WHITE_SIDE \<and> m = mk_move 4 6 0 0 FL_CASTLE \<and> castling b AND 1 \<noteq> 0 \<and>
            board b ! 5 = 0 \<and> board b ! 6 = 0) \<or>
         (side b = WHITE_SIDE \<and> m = mk_move 4 2 0 0 FL_CASTLE \<and> castling b AND 2 \<noteq> 0 \<and>
            board b ! 3 = 0 \<and> board b ! 2 = 0 \<and> board b ! 1 = 0) \<or>
         (side b \<noteq> WHITE_SIDE \<and> m = mk_move 60 62 0 0 FL_CASTLE \<and> castling b AND 4 \<noteq> 0 \<and>
            board b ! 61 = 0 \<and> board b ! 62 = 0) \<or>
         (side b \<noteq> WHITE_SIDE \<and> m = mk_move 60 58 0 0 FL_CASTLE \<and> castling b AND 8 \<noteq> 0 \<and>
            board b ! 59 = 0 \<and> board b ! 58 = 0 \<and> board b ! 57 = 0)"
proof -
  define c1 where "c1 \<longleftrightarrow> castling b AND 1 \<noteq> 0 \<and> board b ! 5 = 0 \<and> board b ! 6 = 0 \<and>
                  \<not> is_attacked b 5 BLACK_SIDE \<and> \<not> is_attacked b 6 BLACK_SIDE"
  define c2 where "c2 \<longleftrightarrow> castling b AND 2 \<noteq> 0 \<and> board b ! 3 = 0 \<and> board b ! 2 = 0 \<and> board b ! 1 = 0 \<and>
                  \<not> is_attacked b 3 BLACK_SIDE \<and> \<not> is_attacked b 2 BLACK_SIDE"
  define c3 where "c3 \<longleftrightarrow> castling b AND 4 \<noteq> 0 \<and> board b ! 61 = 0 \<and> board b ! 62 = 0 \<and>
                  \<not> is_attacked b 61 WHITE_SIDE \<and> \<not> is_attacked b 62 WHITE_SIDE"
  define c4 where "c4 \<longleftrightarrow> castling b AND 8 \<noteq> 0 \<and> board b ! 59 = 0 \<and> board b ! 58 = 0 \<and>
                  board b ! 57 = 0 \<and>
                  \<not> is_attacked b 59 WHITE_SIDE \<and> \<not> is_attacked b 58 WHITE_SIDE"
  define att where "att = is_attacked b (king_sq b ! nat (side b)) (side b XOR 1)"
  have e: "castle_moves b =
     (if \<not> att then
        (if side b = WHITE_SIDE then
           (if c1 then [mk_move 4 6 0 0 FL_CASTLE] else []) @
           (if c2 then [mk_move 4 2 0 0 FL_CASTLE] else [])
         else
           (if c3 then [mk_move 60 62 0 0 FL_CASTLE] else []) @
           (if c4 then [mk_move 60 58 0 0 FL_CASTLE] else []))
      else [])"
    unfolding castle_moves_def Let_def c1_def c2_def c3_def c4_def att_def by (rule refl)
  from m have "(side b = WHITE_SIDE \<and> m = mk_move 4 6 0 0 FL_CASTLE \<and> c1) \<or>
         (side b = WHITE_SIDE \<and> m = mk_move 4 2 0 0 FL_CASTLE \<and> c2) \<or>
         (side b \<noteq> WHITE_SIDE \<and> m = mk_move 60 62 0 0 FL_CASTLE \<and> c3) \<or>
         (side b \<noteq> WHITE_SIDE \<and> m = mk_move 60 58 0 0 FL_CASTLE \<and> c4)"
    unfolding e by (auto split: if_splits)
  then show ?thesis
    unfolding c1_def c2_def c3_def c4_def by blast
qed

lemma castle_moves_ok:
  assumes wf: "wf_board b" and m: "m \<in> set (castle_moves b)"
  shows "pseudo_ok b m"
proof -
  have u: "u8 6 = 6" "u8 60 = 60" "u8 62 = 62" "u8 58 = 58" by (simp_all add: u8_def)
  from wf have sd: "side b = WHITE_SIDE \<or> side b = BLACK_SIDE" by (simp add: wf_board_def)
  from wf have c: "castling b AND 1 = 0 \<or> (board b ! 4 = 6 \<and> board b ! 7 = 4)"
    "castling b AND 2 = 0 \<or> (board b ! 4 = 6 \<and> board b ! 0 = 4)"
    "castling b AND 4 = 0 \<or> (board b ! 60 = -6 \<and> board b ! 63 = -4)"
    "castling b AND 8 = 0 \<or> (board b ! 60 = -6 \<and> board b ! 56 = -4)"
    by (simp_all add: wf_board_def)
  from castle_moves_cases[OF m] sd have oc: "ok_castle b m"
    unfolding ok_castle_def
    by (elim disjE conjE) (simp_all add: u FL_CASTLE_def WHITE_SIDE_def BLACK_SIDE_def)
  then have "0 \<le> mfrom m \<and> mfrom m < 64 \<and> 0 \<le> mto m \<and> mto m < 64 \<and> mfrom m \<noteq> mto m \<and>
     board b ! nat (mfrom m) \<noteq> 0 \<and> piece_side (board b ! nat (mfrom m)) = side b"
    using c unfolding ok_castle_def
    by (elim disjE conjE) (simp_all add: piece_side_def WHITE_SIDE_def BLACK_SIDE_def)
  with oc show ?thesis by (simp add: pseudo_ok_def)
qed

lemma in_squares: "sq \<in> set [0..63] \<longleftrightarrow> 0 \<le> sq \<and> sq < 64"
  by auto

lemma own_piece:
  assumes wf: "wf_board b" and t: "t \<in> {1,2,3,4,5,6}"
    and p: "board b ! nat sq = piece_sign (side b) * t"
  shows "board b ! nat sq \<noteq> 0 \<and> piece_side (board b ! nat sq) = side b"
  using wf_side[OF wf] t unfolding p piece_sign_def piece_side_def WHITE_SIDE_def BLACK_SIDE_def
  by auto

lemma gen_scan_list:
  "m \<in> set (concat (map (\<lambda>sq. if brd ! nat sq \<noteq> p then [] else g sq) xs)) \<Longrightarrow>
   \<exists>sq \<in> set xs. brd ! nat sq = p \<and> m \<in> set (g sq)"
  by (induction xs) (auto split: if_splits)

lemma gen_scan:
  "m \<in> set (concat (map (\<lambda>sq. if board b ! nat sq \<noteq> p then [] else g sq) [0..63])) \<Longrightarrow>
   \<exists>sq. 0 \<le> sq \<and> sq < 64 \<and> board b ! nat sq = p \<and> m \<in> set (g sq)"
  using gen_scan_list[of m "board b" p g "[0..63]"] in_squares by blast

lemma pawn_moves_from_ok:
  assumes wf: "wf_board b" and sq: "0 \<le> sq" "sq < 64"
    and pw: "board b ! nat sq = piece_sign (side b) * PT_PAWN"
    and m: "m \<in> set (pawn_moves_from b sq)"
  shows "pseudo_ok b m"
proof -
  from m consider "m \<in> set (pawn_forward b sq)"
    | "m \<in> set (pawn_capture b sq (pawn_dir b + (-1)) (sq_file sq + (-1)))"
    | "m \<in> set (pawn_capture b sq (pawn_dir b + 1) (sq_file sq + 1))"
    unfolding pawn_moves_from_def by auto
  then show ?thesis
  proof cases
    case 1 then show ?thesis by (rule pawn_forward_ok[OF wf sq pw])
  next
    case 2 show ?thesis by (rule pawn_capture_ok[OF wf sq pw _ 2]) simp
  next
    case 3 show ?thesis by (rule pawn_capture_ok[OF wf sq pw _ 3]) simp
  qed
qed

lemma gen_pawn_moves_ok:
  assumes wf: "wf_board b" and m: "m \<in> set (gen_pawn_moves b)"
  shows "pseudo_ok b m"
proof -
  from gen_scan[OF m[unfolded gen_pawn_moves_def]]
  obtain sq where "0 \<le> sq" "sq < 64" "board b ! nat sq = piece_sign (side b) * PT_PAWN"
    "m \<in> set (pawn_moves_from b sq)" by blast
  then show ?thesis by (rule pawn_moves_from_ok[OF wf])
qed

lemma gen_knight_moves_ok:
  assumes wf: "wf_board b" and m: "m \<in> set (gen_knight_moves b)"
  shows "pseudo_ok b m"
proof -
  from gen_scan[OF m[unfolded gen_knight_moves_def]]
  obtain sq where sq: "0 \<le> sq" "sq < 64" and p: "board b ! nat sq = piece_sign (side b) * PT_KNIGHT"
    and mm: "m \<in> set (step_moves_from b sq 2 KNIGHT_DIRS)" by blast
  from own_piece[OF wf _ p[unfolded PT_KNIGHT_def]]
  have "board b ! nat sq \<noteq> 0" "piece_side (board b ! nat sq) = side b" by auto
  from step_moves_ok[OF wf sq this mm] show ?thesis .
qed

lemma dirs_nonzero: "d \<in> set (slider_dirs t) \<Longrightarrow> d \<noteq> 0"
  by (auto simp: slider_dirs_def BISHOP_DIRS_def ROOK_DIRS_def KING_DIRS_def split: if_splits)

lemma gen_slider_moves_ok:
  assumes wf: "wf_board b" and t: "t \<in> {3, 4, 5}" and m: "m \<in> set (gen_slider_moves b t)"
  shows "pseudo_ok b m"
proof -
  from gen_scan[OF m[unfolded gen_slider_moves_def]]
  obtain sq where sq: "0 \<le> sq" "sq < 64" and p: "board b ! nat sq = piece_sign (side b) * t"
    and mm: "m \<in> set (concat (map (\<lambda>d. slide_moves b sq d (sq + d)) (slider_dirs t)))"
    by blast
  from mm obtain d where d: "d \<in> set (slider_dirs t)" and md: "m \<in> set (slide_moves b sq d (sq + d))"
    by auto
  from own_piece[OF wf _ p] t
  have own: "board b ! nat sq \<noteq> 0" "piece_side (board b ! nat sq) = side b" by auto
  have "(d > 0 \<longrightarrow> sq + d > sq) \<and> (d < 0 \<longrightarrow> sq + d < sq)" by auto
  from slide_moves_ok[OF md wf sq own this] show ?thesis .
qed

lemma wf_king_sq:
  assumes wf: "wf_board b"
  shows "0 \<le> king_sq b ! nat (side b)" "king_sq b ! nat (side b) < 64"
    "board b ! nat (king_sq b ! nat (side b)) = piece_sign (side b) * PT_KING"
proof -
  from wf have sd: "side b = 0 \<or> side b = 1" by (rule wf_side)
  from wf have k: "0 \<le> king_sq b ! 0" "king_sq b ! 0 < 64" "0 \<le> king_sq b ! 1" "king_sq b ! 1 < 64"
    by (simp_all add: wf_board_def)
  from wf_king[OF wf k(1,2)] wf_king[OF wf k(3,4)]
  have kk: "board b ! nat (king_sq b ! 0) = 6" "board b ! nat (king_sq b ! 1) = -6" by auto
  from sd k show "0 \<le> king_sq b ! nat (side b)" "king_sq b ! nat (side b) < 64" by auto
  from sd kk show "board b ! nat (king_sq b ! nat (side b)) = piece_sign (side b) * PT_KING"
    by (auto simp: piece_sign_def WHITE_SIDE_def PT_KING_def)
qed

lemma gen_king_moves_ok:
  assumes wf: "wf_board b" and m: "m \<in> set (gen_king_moves b)"
  shows "pseudo_ok b m"
proof -
  note k = wf_king_sq[OF wf]
  from own_piece[OF wf _ k(3)[unfolded PT_KING_def]]
  have own: "board b ! nat (king_sq b ! nat (side b)) \<noteq> 0"
    "piece_side (board b ! nat (king_sq b ! nat (side b))) = side b" by auto
  from m consider "m \<in> set (step_moves_from b (king_sq b ! nat (side b)) 1 KING_DIRS)"
    | "m \<in> set (castle_moves b)"
    unfolding gen_king_moves_def by auto
  then show ?thesis
  proof cases
    case 1 from step_moves_ok[OF wf k(1,2) own 1] show ?thesis .
  next
    case 2 from castle_moves_ok[OF wf 2] show ?thesis .
  qed
qed

lemma gen_pseudo_moves_ok:
  assumes wf: "wf_board b" and m: "m \<in> set (gen_pseudo_moves b)"
  shows "pseudo_ok b m"
proof -
  from m consider "m \<in> set (gen_pawn_moves b)" | "m \<in> set (gen_knight_moves b)"
    | "m \<in> set (gen_slider_moves b PT_BISHOP)" | "m \<in> set (gen_slider_moves b PT_ROOK)"
    | "m \<in> set (gen_slider_moves b PT_QUEEN)" | "m \<in> set (gen_king_moves b)"
    unfolding gen_pseudo_moves_def by auto
  then show ?thesis
  proof cases
    case 1 then show ?thesis by (rule gen_pawn_moves_ok[OF wf])
  next
    case 2 then show ?thesis by (rule gen_knight_moves_ok[OF wf])
  next
    case 3 show ?thesis by (rule gen_slider_moves_ok[OF wf _ 3]) (simp add: pt_defs)
  next
    case 4 show ?thesis by (rule gen_slider_moves_ok[OF wf _ 4]) (simp add: pt_defs)
  next
    case 5 show ?thesis by (rule gen_slider_moves_ok[OF wf _ 5]) (simp add: pt_defs)
  next
    case 6 then show ?thesis by (rule gen_king_moves_ok[OF wf])
  qed
qed

section \<open>Make followed by unmake\<close>

lemma xor1_twice [simp]: "(s XOR 1) XOR 1 = (s::int)"
  by (simp add: xor.assoc)

lemma xor1_eq0 [simp]: "(s XOR 1 = 0) = (s = (1::int))"
  by (metis xor1_twice xor.right_neutral bit.xor_self xor.commute)

lemma unmake_move_king_sq:
  "king_sq (unmake_move b m u) =
     (if piece_type (um_piece (b\<lparr>side := side b XOR 1\<rparr>) m) = PT_KING
      then (king_sq b)[nat (side b XOR 1) := mfrom m] else king_sq b)"
  by (simp add: unmake_move_def Let_def)

lemma unmake_move_board:
  "board (unmake_move b m u) =
     board (um_castle_rook (um_restore_captured
        (um_move_back (b\<lparr>side := side b XOR 1\<rparr>) m (um_piece (b\<lparr>side := side b XOR 1\<rparr>) m)) m) m)"
  by (simp add: unmake_move_def Let_def)

lemma um_side [simp]:
  "side (um_move_back b m p) = side b" "side (um_restore_captured b m) = side b"
  by (simp_all add: um_defs)

text \<open>The fields that the undo record restores.\<close>

lemma roundtrip_scalars:
  "side (unmake_move (fst (make_move b m)) m (snd (make_move b m))) = side b"
  "castling (unmake_move (fst (make_move b m)) m (snd (make_move b m))) = castling b"
  "ep_square (unmake_move (fst (make_move b m)) m (snd (make_move b m))) = ep_square b"
  "halfmove (unmake_move (fst (make_move b m)) m (snd (make_move b m))) = halfmove b"
  "hash (unmake_move (fst (make_move b m)) m (snd (make_move b m))) = hash b"
  "fullmove (unmake_move (fst (make_move b m)) m (snd (make_move b m))) = fullmove b"
  by (simp_all add: unmake_move_fields make_move_undo make_move_side make_move_fullmove
      WHITE_SIDE_def BLACK_SIDE_def)

lemmas fl_defs = FL_NONE_def FL_CASTLE_def FL_EP_def FL_DOUBLE_def

lemma piece_side_own:
  "wf_board b \<Longrightarrow> piece_side p = side b \<Longrightarrow> p \<noteq> 0 \<Longrightarrow>
     (side b = 0 \<and> p > 0) \<or> (side b = 1 \<and> p < 0)"
  using wf_side[of b] by (auto simp: piece_side_def WHITE_SIDE_def BLACK_SIDE_def split: if_splits)

lemma roundtrip_board_plain:
  assumes wf: "wf_board b"
    and r: "0 \<le> mfrom m" "mfrom m < 64" "0 \<le> mto m" "mto m < 64" "mfrom m \<noteq> mto m"
    and own: "board b ! nat (mfrom m) \<noteq> 0" "piece_side (board b ! nat (mfrom m)) = side b"
    and ok: "ok_plain b m"
  shows "board (unmake_move (fst (make_move b m)) m (snd (make_move b m))) = board b"
proof -
  define brd where "brd = board b"
  define piece where "piece = brd ! nat (mfrom m)"
  have len: "length brd = 64" using wf by (simp add: wf_board_def brd_def)
  have fl: "flags m = 0" and cap: "captured m = brd ! nat (mto m)"
    using ok by (simp_all add: ok_plain_def brd_def)
  have pr: "promotion m \<noteq> 0 \<Longrightarrow> piece = piece_sign (side b) * PT_PAWN"
    using ok by (auto simp: ok_plain_def brd_def piece_def)
  have nn: "nat (mfrom m) \<noteq> nat (mto m)" "nat (mfrom m) < 64" "nat (mto m) < 64"
    using r by auto
  have b1: "board (fst (make_move b m)) =
              brd[nat (mfrom m) := 0, nat (mto m) := (if promotion m \<noteq> 0 then promotion m else piece)]"
    by (simp add: make_move_board mm_castle_rook_board fl fl_defs brd_def piece_def)
  have up: "um_piece (fst (make_move b m)\<lparr>side := side (fst (make_move b m)) XOR 1\<rparr>) m = piece"
    using pr nn len by (simp add: um_piece_def make_move_side b1)
  show ?thesis
    unfolding unmake_move_board up brd_def[symmetric]
    using nn len
    by (auto simp: um_castle_rook_board fl fl_defs b1 cap list_eq_iff_nth_eq nth_list_update
          piece_def)
qed


lemma roundtrip_board_double:
  assumes wf: "wf_board b"
    and r: "0 \<le> mfrom m" "mfrom m < 64" "0 \<le> mto m" "mto m < 64" "mfrom m \<noteq> mto m"
    and ok: "ok_double b m"
  shows "board (unmake_move (fst (make_move b m)) m (snd (make_move b m))) = board b"
proof -
  define brd where "brd = board b"
  define piece where "piece = brd ! nat (mfrom m)"
  have len: "length brd = 64" using wf by (simp add: wf_board_def brd_def)
  have fl: "flags m = 4" and cap: "captured m = 0" and pr: "promotion m = 0"
    and e: "brd ! nat (mto m) = 0"
    using ok unfolding ok_double_def brd_def fl_defs by blast+
  have nn: "nat (mfrom m) \<noteq> nat (mto m)" "nat (mfrom m) < 64" "nat (mto m) < 64"
    using r by auto
  have b1: "board (fst (make_move b m)) = brd[nat (mfrom m) := 0, nat (mto m) := piece]"
    by (simp add: make_move_board mm_castle_rook_board fl fl_defs brd_def piece_def cap pr)
  have up: "um_piece (fst (make_move b m)\<lparr>side := side (fst (make_move b m)) XOR 1\<rparr>) m = piece"
    using pr nn len by (simp add: um_piece_def make_move_side b1)
  show ?thesis
    unfolding unmake_move_board up brd_def[symmetric]
    using nn len e
    by (auto simp: um_castle_rook_board fl fl_defs b1 cap list_eq_iff_nth_eq nth_list_update
          piece_def)
qed

lemma wf_ep:
  assumes wf: "wf_board b" and ep: "ep_square b \<noteq> -1"
  shows "0 \<le> ep_square b - pawn_dir b" "ep_square b - pawn_dir b < 64"
    "0 \<le> ep_square b" "ep_square b < 64"
    "board b ! nat (ep_square b) = 0"
    "board b ! nat (ep_square b - pawn_dir b) = - piece_sign (side b) * PT_PAWN"
proof -
  from wf ep have
    "(side b = WHITE_SIDE \<and> 40 \<le> ep_square b \<and> ep_square b < 48 \<and>
       board b ! nat (ep_square b) = 0 \<and> board b ! nat (ep_square b - 8) = B_PAWN) \<or>
      (side b = BLACK_SIDE \<and> 16 \<le> ep_square b \<and> ep_square b < 24 \<and>
       board b ! nat (ep_square b) = 0 \<and> board b ! nat (ep_square b + 8) = W_PAWN)"
    by (simp add: wf_board_def)
  then show "0 \<le> ep_square b - pawn_dir b" "ep_square b - pawn_dir b < 64"
    "0 \<le> ep_square b" "ep_square b < 64"
    "board b ! nat (ep_square b) = 0"
    "board b ! nat (ep_square b - pawn_dir b) = - piece_sign (side b) * PT_PAWN"
    by (auto simp: pawn_dir_def piece_sign_def WHITE_SIDE_def BLACK_SIDE_def B_PAWN_def
          W_PAWN_def PT_PAWN_def)
qed

lemma roundtrip_board_ep:
  assumes wf: "wf_board b"
    and r: "0 \<le> mfrom m" "mfrom m < 64" "0 \<le> mto m" "mto m < 64" "mfrom m \<noteq> mto m"
    and ok: "ok_ep b m"
  shows "board (unmake_move (fst (make_move b m)) m (snd (make_move b m))) = board b"
proof -
  define brd where "brd = board b"
  define piece where "piece = brd ! nat (mfrom m)"
  define cs where "cs = mto m - pawn_dir b"
  have len: "length brd = 64" using wf by (simp add: wf_board_def brd_def)
  have fl: "flags m = 2" and cap: "captured m = - piece_sign (side b) * PT_PAWN"
    and pr: "promotion m = 0" and to: "mto m = ep_square b"
    and ms: "make_sq (sq_file (mto m)) (sq_rank (mfrom m)) = cs" and fc: "mfrom m \<noteq> cs"
    using ok unfolding ok_ep_def fl_defs cs_def by blast+
  have epn: "ep_square b \<noteq> -1" using to r by auto
  note e = wf_ep[OF wf epn, folded to, folded cs_def brd_def]
  have c0: "captured m \<noteq> 0" by (simp add: cap piece_sign_def PT_PAWN_def)
  have tc: "mto m \<noteq> cs" by (auto simp: cs_def pawn_dir_def)
  have nn: "nat (mfrom m) \<noteq> nat (mto m)" "nat (mfrom m) < 64" "nat (mto m) < 64"
    "nat cs < 64" "nat cs \<noteq> nat (mto m)" "nat cs \<noteq> nat (mfrom m)"
    using r e(1,2) tc fc by auto
  have b1: "board (fst (make_move b m)) = brd[nat (mfrom m) := 0, nat cs := 0, nat (mto m) := piece]"
    using c0 by (simp add: make_move_board mm_castle_rook_board fl fl_defs brd_def piece_def pr ms)
  have up: "um_piece (fst (make_move b m)\<lparr>side := side (fst (make_move b m)) XOR 1\<rparr>) m = piece"
    using pr nn len by (simp add: um_piece_def make_move_side b1)
  show ?thesis
    unfolding unmake_move_board up brd_def[symmetric]
    using nn len e(5,6) c0
    by (auto simp: um_castle_rook_board fl fl_defs b1 ms cap list_eq_iff_nth_eq nth_list_update
          piece_def)
qed

lemma sq_consts:
  "sq_file 6 = 6" "sq_file 2 = 2" "sq_file 62 = 6" "sq_file 58 = 2"
  "sq_rank 4 = 0" "sq_rank 60 = 7"
  "make_sq 7 0 = 7" "make_sq 5 0 = 5" "make_sq 0 0 = 0" "make_sq 3 0 = 3"
  "make_sq 7 7 = 63" "make_sq 5 7 = 61" "make_sq 0 7 = 56" "make_sq 3 7 = 59"
  by (simp_all add: sq_file_mod sq_rank_div make_sq_add)

lemma wf_castle:
  assumes wf: "wf_board b"
  shows "castling b AND 1 \<noteq> 0 \<Longrightarrow> board b ! 4 = 6 \<and> board b ! 7 = 4"
    "castling b AND 2 \<noteq> 0 \<Longrightarrow> board b ! 4 = 6 \<and> board b ! 0 = 4"
    "castling b AND 4 \<noteq> 0 \<Longrightarrow> board b ! 60 = -6 \<and> board b ! 63 = -4"
    "castling b AND 8 \<noteq> 0 \<Longrightarrow> board b ! 60 = -6 \<and> board b ! 56 = -4"
  using wf by (simp_all add: wf_board_def)

lemma roundtrip_board_castle:
  assumes wf: "wf_board b" and ok: "ok_castle b m"
  shows "board (unmake_move (fst (make_move b m)) m (snd (make_move b m))) = board b"
proof -
  define brd where "brd = board b"
  have len: "length brd = 64" using wf by (simp add: wf_board_def brd_def)
  have fl: "flags m = 1" and cap: "captured m = 0" and pr: "promotion m = 0"
    using ok unfolding ok_castle_def fl_defs by blast+
  note c = wf_castle[OF wf, folded brd_def]
  from ok consider
      (wk) "side b = 0" "mfrom m = 4" "mto m = 6" "castling b AND 1 \<noteq> 0" "brd ! 5 = 0" "brd ! 6 = 0"
    | (wq) "side b = 0" "mfrom m = 4" "mto m = 2" "castling b AND 2 \<noteq> 0" "brd ! 3 = 0" "brd ! 2 = 0"
    | (bk) "side b = 1" "mfrom m = 60" "mto m = 62" "castling b AND 4 \<noteq> 0" "brd ! 61 = 0" "brd ! 62 = 0"
    | (bq) "side b = 1" "mfrom m = 60" "mto m = 58" "castling b AND 8 \<noteq> 0" "brd ! 59 = 0" "brd ! 58 = 0"
    unfolding ok_castle_def WHITE_SIDE_def BLACK_SIDE_def brd_def by blast
  then show ?thesis
  proof cases
    case wk
    from c(1)[OF wk(4)] have k: "brd ! 4 = 6" "brd ! 7 = 4" by auto
    have b1: "board (fst (make_move b m)) = brd[4 := 0, 6 := 6, 7 := 0, 5 := 4]"
      by (simp add: make_move_board mm_castle_rook_board fl fl_defs brd_def[symmetric] cap pr wk k
          sq_consts piece_side_def piece_sign_def PT_ROOK_def)
    have up: "um_piece (fst (make_move b m)\<lparr>side := side (fst (make_move b m)) XOR 1\<rparr>) m = 6"
      using len by (simp add: um_piece_def b1 pr wk)
    show ?thesis
      unfolding unmake_move_board up brd_def[symmetric]
      using len k wk(5,6)
      by (auto simp: um_castle_rook_board fl fl_defs b1 cap wk(1,2,3) sq_consts make_move_side
            piece_sign_def WHITE_SIDE_def PT_ROOK_def list_eq_iff_nth_eq nth_list_update)
  next
    case wq
    from c(2)[OF wq(4)] have k: "brd ! 4 = 6" "brd ! 0 = 4" by auto
    have b1: "board (fst (make_move b m)) = brd[4 := 0, 2 := 6, 0 := 0, 3 := 4]"
      by (simp add: make_move_board mm_castle_rook_board fl fl_defs brd_def[symmetric] cap pr wq k
          sq_consts piece_side_def piece_sign_def PT_ROOK_def)
    have up: "um_piece (fst (make_move b m)\<lparr>side := side (fst (make_move b m)) XOR 1\<rparr>) m = 6"
      using len by (simp add: um_piece_def b1 pr wq)
    show ?thesis
      unfolding unmake_move_board up brd_def[symmetric]
      using len k wq(5,6)
      by (auto simp: um_castle_rook_board fl fl_defs b1 cap wq(1,2,3) sq_consts make_move_side
            piece_sign_def WHITE_SIDE_def PT_ROOK_def list_eq_iff_nth_eq nth_list_update)
  next
    case bk
    from c(3)[OF bk(4)] have k: "brd ! 60 = -6" "brd ! 63 = -4" by auto
    have b1: "board (fst (make_move b m)) = brd[60 := 0, 62 := -6, 63 := 0, 61 := -4]"
      by (simp add: make_move_board mm_castle_rook_board fl fl_defs brd_def[symmetric] cap pr bk k
          sq_consts piece_side_def piece_sign_def PT_ROOK_def WHITE_SIDE_def BLACK_SIDE_def)
    have up: "um_piece (fst (make_move b m)\<lparr>side := side (fst (make_move b m)) XOR 1\<rparr>) m = -6"
      using len by (simp add: um_piece_def b1 pr bk)
    show ?thesis
      unfolding unmake_move_board up brd_def[symmetric]
      using len k bk(5,6)
      by (auto simp: um_castle_rook_board fl fl_defs b1 cap bk(1,2,3) sq_consts make_move_side
            piece_sign_def WHITE_SIDE_def PT_ROOK_def list_eq_iff_nth_eq nth_list_update)
  next
    case bq
    from c(4)[OF bq(4)] have k: "brd ! 60 = -6" "brd ! 56 = -4" by auto
    have b1: "board (fst (make_move b m)) = brd[60 := 0, 58 := -6, 56 := 0, 59 := -4]"
      by (simp add: make_move_board mm_castle_rook_board fl fl_defs brd_def[symmetric] cap pr bq k
          sq_consts piece_side_def piece_sign_def PT_ROOK_def WHITE_SIDE_def BLACK_SIDE_def)
    have up: "um_piece (fst (make_move b m)\<lparr>side := side (fst (make_move b m)) XOR 1\<rparr>) m = -6"
      using len by (simp add: um_piece_def b1 pr bq)
    show ?thesis
      unfolding unmake_move_board up brd_def[symmetric]
      using len k bq(5,6)
      by (auto simp: um_castle_rook_board fl fl_defs b1 cap bq(1,2,3) sq_consts make_move_side
            piece_sign_def WHITE_SIDE_def PT_ROOK_def list_eq_iff_nth_eq nth_list_update)
  qed
qed

lemma ok_flags:
  "ok_plain b m \<Longrightarrow> flags m = 0" "ok_double b m \<Longrightarrow> flags m = 4"
  "ok_ep b m \<Longrightarrow> flags m = 2" "ok_castle b m \<Longrightarrow> flags m = 1"
  by (simp_all add: ok_plain_def ok_double_def ok_ep_def ok_castle_def fl_defs)

lemma ok_castle_squares:
  "ok_castle b m \<Longrightarrow>
     (mfrom m = 4 \<and> mto m = 6) \<or> (mfrom m = 4 \<and> mto m = 2) \<or>
     (mfrom m = 60 \<and> mto m = 62) \<or> (mfrom m = 60 \<and> mto m = 58)"
  unfolding ok_castle_def by blast

lemma make_move_board_at_to:
  assumes wf: "wf_board b" and ok: "pseudo_ok b m"
  shows "board (fst (make_move b m)) ! nat (mto m) =
           (if promotion m \<noteq> 0 then promotion m else board b ! nat (mfrom m))"
proof -
  have len: "length (board b) = 64" using wf by (rule wf_len)
  from ok have r: "0 \<le> mfrom m" "mfrom m < 64" "0 \<le> mto m" "mto m < 64" "mfrom m \<noteq> mto m"
    unfolding pseudo_ok_def by blast+
  from ok consider "ok_plain b m" | "ok_double b m" | "ok_ep b m" | "ok_castle b m"
    unfolding pseudo_ok_def by blast
  then show ?thesis
  proof cases
    case 1 then show ?thesis using r len
      by (simp add: make_move_board mm_castle_rook_board ok_flags fl_defs)
  next
    case 2 then show ?thesis using r len
      by (simp add: make_move_board mm_castle_rook_board ok_flags fl_defs)
  next
    case 3 then show ?thesis using r len
      by (simp add: make_move_board mm_castle_rook_board ok_flags fl_defs)
  next
    case 4
    from ok_castle_squares[OF 4] show ?thesis using len
      by (elim disjE conjE)
         (simp_all add: make_move_board mm_castle_rook_board ok_flags(4)[OF 4] fl_defs sq_consts)
  qed
qed

lemma um_piece_make:
  assumes wf: "wf_board b" and ok: "pseudo_ok b m"
  shows "um_piece (fst (make_move b m)\<lparr>side := side (fst (make_move b m)) XOR 1\<rparr>) m
           = board b ! nat (mfrom m)"
proof -
  have pr: "promotion m \<noteq> 0 \<Longrightarrow> board b ! nat (mfrom m) = piece_sign (side b) * PT_PAWN"
    using ok unfolding pseudo_ok_def ok_plain_def ok_double_def ok_ep_def ok_castle_def by blast
  show ?thesis
    using pr by (simp add: um_piece_def make_move_side make_move_board_at_to[OF wf ok])
qed

lemma um_piece_make':
  assumes wf: "wf_board b" and ok: "pseudo_ok b m"
  shows "um_piece (fst (make_move b m)\<lparr>side := side b\<rparr>) m = board b ! nat (mfrom m)"
  using um_piece_make[OF wf ok] by (simp add: make_move_side)

lemma king_from:
  assumes wf: "wf_board b" and r: "0 \<le> sq" "sq < 64"
    and own: "piece_side (board b ! nat sq) = side b"
    and k: "piece_type (board b ! nat sq) = PT_KING"
  shows "king_sq b ! nat (side b) = sq"
proof -
  from k have "board b ! nat sq = 6 \<or> board b ! nat sq = -6"
    by (auto simp: piece_type_def PT_KING_def split: if_splits)
  then show ?thesis
  proof
    assume p: "board b ! nat sq = 6"
    with own have "side b = 0" by (simp add: piece_side_def WHITE_SIDE_def)
    with wf_king(1)[OF wf r] p show ?thesis by simp
  next
    assume p: "board b ! nat sq = -6"
    with own have "side b = 1" by (simp add: piece_side_def BLACK_SIDE_def)
    with wf_king(2)[OF wf r] p show ?thesis by simp
  qed
qed

lemma roundtrip_king_sq:
  assumes wf: "wf_board b" and ok: "pseudo_ok b m"
  shows "king_sq (unmake_move (fst (make_move b m)) m (snd (make_move b m))) = king_sq b"
proof -
  from ok have r: "0 \<le> mfrom m" "mfrom m < 64"
    and own: "piece_side (board b ! nat (mfrom m)) = side b"
    unfolding pseudo_ok_def by blast+
  have l: "length (king_sq b) = 2" using wf by (simp add: wf_board_def)
  show ?thesis
  proof (cases "piece_type (board b ! nat (mfrom m)) = PT_KING")
    case False
    then show ?thesis
      by (simp add: unmake_move_king_sq um_piece_make'[OF wf ok] make_move_king_sq
          make_move_side)
  next
    case True
    from king_from[OF wf r own True] have "king_sq b ! nat (side b) = mfrom m" .
    then have "(king_sq b)[nat (side b) := mfrom m] = king_sq b"
      by (metis list_update_id)
    with True show ?thesis
      by (simp add: unmake_move_king_sq um_piece_make'[OF wf ok] make_move_king_sq
          make_move_side own)
  qed
qed

lemma roundtrip_board:
  assumes wf: "wf_board b" and ok: "pseudo_ok b m"
  shows "board (unmake_move (fst (make_move b m)) m (snd (make_move b m))) = board b"
proof -
  from ok have r: "0 \<le> mfrom m" "mfrom m < 64" "0 \<le> mto m" "mto m < 64" "mfrom m \<noteq> mto m"
    and own: "board b ! nat (mfrom m) \<noteq> 0" "piece_side (board b ! nat (mfrom m)) = side b"
    unfolding pseudo_ok_def by blast+
  from ok consider "ok_plain b m" | "ok_double b m" | "ok_ep b m" | "ok_castle b m"
    unfolding pseudo_ok_def by blast
  then show ?thesis
  proof cases
    case 1 from roundtrip_board_plain[OF wf r own 1] show ?thesis .
  next
    case 2 from roundtrip_board_double[OF wf r 2] show ?thesis .
  next
    case 3 from roundtrip_board_ep[OF wf r 3] show ?thesis .
  next
    case 4 from roundtrip_board_castle[OF wf 4] show ?thesis .
  qed
qed


lemma make_move_hash:
  "hash (fst (make_move b m)) =
     hash (mm_en_passant (mm_castling_rights (mm_castle_rook (mm_place (mm_remove_captured
        (mm_lift_piece b m (board b ! nat (mfrom m))) m) m (board b ! nat (mfrom m))) m
        (piece_side (board b ! nat (mfrom m)))) m (piece_type (board b ! nat (mfrom m)))
        (piece_side (board b ! nat (mfrom m)))) m (piece_type (board b ! nat (mfrom m))))
     XOR Z_SIDE"
  by (simp add: make_move_def Let_def mm_en_passant_hash mm_castle_rook_hash)

lemma same_core_refl [simp]: "same_core b b"
  by (simp add: same_core_def)

lemma same_core_sym: "same_core b c \<Longrightarrow> same_core c b"
  by (simp add: same_core_def)

lemma same_core_trans: "same_core b c \<Longrightarrow> same_core c d \<Longrightarrow> same_core b d"
  by (simp add: same_core_def)

lemma same_core_make:
  assumes "same_core b c"
  shows "same_core (fst (make_move b m)) (fst (make_move c m))"
proof -
  from assms have e: "board b = board c" "side b = side c" "castling b = castling c"
    "ep_square b = ep_square c" "halfmove b = halfmove c" "fullmove b = fullmove c"
    "hash b = hash c" "king_sq b = king_sq c"
    by (simp_all add: same_core_def)
  show ?thesis
    unfolding same_core_def
    by (simp add: make_move_board make_move_side make_move_castling make_move_ep
        make_move_halfmove make_move_fullmove make_move_king_sq make_move_hash
        mm_castle_rook_board mm_castle_rook_hash mm_en_passant_hash e)
qed

lemma same_core_wf: "same_core b c \<Longrightarrow> wf_board b = wf_board c"
  by (simp add: same_core_def wf_board_def)

lemma same_core_pseudo_ok: "same_core b c \<Longrightarrow> pseudo_ok b m = pseudo_ok c m"
  by (simp add: same_core_def pseudo_ok_def ok_plain_def ok_double_def ok_ep_def ok_castle_def
      pawn_dir_def pawn_start_rank_def)

lemma same_core_is_attacked: "same_core b c \<Longrightarrow> is_attacked b sq s = is_attacked c sq s"
  by (simp add: same_core_def is_attacked_def)

lemma same_core_legal_test:
  assumes "same_core b c" shows "legal_test b m = legal_test c m"
proof -
  have s: "same_core (fst (make_move b m)) (fst (make_move c m))"
    by (rule same_core_make[OF assms])
  then have "king_sq (fst (make_move b m)) = king_sq (fst (make_move c m))"
    "side (fst (make_move b m)) = side (fst (make_move c m))"
    by (simp_all add: same_core_def)
  then show ?thesis
    unfolding legal_test_def using same_core_is_attacked[OF s] by simp
qed

lemma roundtrip_same_core:
  assumes wf: "wf_board b" and ok: "pseudo_ok b m"
  shows "same_core (unmake_move (fst (make_move b m)) m (snd (make_move b m))) b"
  unfolding same_core_def
  by (simp add: roundtrip_scalars roundtrip_board[OF wf ok] roundtrip_king_sq[OF wf ok])

lemma try_move_eq:
  "try_move m (acc, c) =
     (if legal_test c m then acc @ [m] else acc,
      unmake_move (fst (make_move c m)) m (snd (make_move c m)))"
  by (simp add: try_move_def legal_test_def Let_def split: prod.splits)

lemma fold_try_move:
  assumes wf: "wf_board b"
  shows "(\<forall>m \<in> set ms. pseudo_ok b m) \<Longrightarrow> same_core c b \<Longrightarrow>
         fst (fold try_move ms (acc, c)) = acc @ filter (legal_test b) ms \<and>
         same_core (snd (fold try_move ms (acc, c))) b"
proof (induction ms arbitrary: acc c)
  case Nil
  then show ?case by simp
next
  case (Cons m ms)
  define c' where "c' = unmake_move (fst (make_move c m)) m (snd (make_move c m))"
  have wfc: "wf_board c" using same_core_wf[OF Cons.prems(2)] wf by simp
  have okc: "pseudo_ok c m" using same_core_pseudo_ok[OF Cons.prems(2)] Cons.prems(1) by simp
  have sc: "same_core c' b"
    unfolding c'_def using roundtrip_same_core[OF wfc okc] Cons.prems(2)
    by (rule same_core_trans)
  have lt: "legal_test c m = legal_test b m" by (rule same_core_legal_test[OF Cons.prems(2)])
  have step: "try_move m (acc, c) = (if legal_test b m then acc @ [m] else acc, c')"
    by (simp add: try_move_eq lt c'_def)
  from Cons.prems(1) have rest: "\<forall>m \<in> set ms. pseudo_ok b m" by simp
  show ?case
    using Cons.IH[OF rest sc, of "if legal_test b m then acc @ [m] else acc"]
    by (simp add: step)
qed

lemma gen_legal_moves_filter:
  assumes wf: "wf_board b"
  shows "fst (gen_legal_moves b) = filter (legal_test b) (gen_pseudo_moves b)"
    and "same_core (snd (gen_legal_moves b)) b"
  using fold_try_move[OF wf, of "gen_pseudo_moves b" b "[]"] gen_pseudo_moves_ok[OF wf]
  by (simp_all add: gen_legal_moves_def)

lemma legal_is_pseudo_ok:
  "wf_board b \<Longrightarrow> m \<in> set (fst (gen_legal_moves b)) \<Longrightarrow> pseudo_ok b m"
  using gen_pseudo_moves_ok[of b m] by (simp add: gen_legal_moves_filter)

lemma legal_test_board:
  "legal_test b m \<longleftrightarrow>
     \<not> is_attacked (b\<lparr>board := board (fst (make_move b m))\<rparr>)
          (king_sq (fst (make_move b m)) ! nat (side b)) (side b XOR 1)"
  by (simp add: legal_test_def make_move_side is_attacked_def)


lemma ex_castle_wf: "wf_board ex_castle_board"
  by code_simp

lemma ex_castle_after:
  "board (fst (make_move ex_castle_board (mk_move 4 6 0 0 FL_CASTLE))) =
     place [(5, 4), (0, 4), (6, 6), (57, -4), (60, -6)]"
  "king_sq (fst (make_move ex_castle_board (mk_move 4 6 0 0 FL_CASTLE))) = [6, 60]"
proof -
  define m where "m = mk_move 4 6 0 0 FL_CASTLE"
  have f: "mfrom m = 4" "mto m = 6" "captured m = 0" "promotion m = 0" "flags m = 1"
    unfolding m_def by code_simp+
  have p: "board ex_castle_board ! 4 = 6" by code_simp
  have s: "sq_file 6 = 6" "make_sq 7 (sq_rank 4) = 7" "make_sq 5 (sq_rank 4) = 5"
    "piece_sign 0 * PT_ROOK = 4" "piece_type 6 = PT_KING" "piece_side 6 = 0"
    by code_simp+
  have "board (fst (make_move ex_castle_board m)) =
     (board ex_castle_board)[4 := 0, 6 := 6, 7 := 0, 5 := 4]"
    by (simp add: make_move_board mm_castle_rook_board f p s fl_defs)
  also have "\<dots> = place [(5, 4), (0, 4), (6, 6), (57, -4), (60, -6)]"
    by code_simp
  finally show "board (fst (make_move ex_castle_board (mk_move 4 6 0 0 FL_CASTLE))) =
     place [(5, 4), (0, 4), (6, 6), (57, -4), (60, -6)]"
    unfolding m_def .
  have "king_sq (fst (make_move ex_castle_board m)) = (king_sq ex_castle_board)[0 := 6]"
    by (simp add: make_move_king_sq f p s)
  also have "\<dots> = [6, 60]" by code_simp
  finally show "king_sq (fst (make_move ex_castle_board (mk_move 4 6 0 0 FL_CASTLE))) = [6, 60]"
    unfolding m_def .
qed

lemma ex_castle_legal:
  "mk_move 4 6 0 0 FL_CASTLE \<in> set (fst (gen_legal_moves ex_castle_board))"
proof -
  have g: "mk_move 4 6 0 0 FL_CASTLE \<in> set (gen_pseudo_moves ex_castle_board)"
    by code_simp
  have "\<not> is_attacked (ex_castle_board\<lparr>board := place [(5, 4), (0, 4), (6, 6), (57, -4), (60, -6)]\<rparr>)
          ([6, 60] ! nat (side ex_castle_board)) (side ex_castle_board XOR 1)"
    by code_simp
  then have "legal_test ex_castle_board (mk_move 4 6 0 0 FL_CASTLE)"
    by (simp add: legal_test_board ex_castle_after)
  with g show ?thesis by (simp add: gen_legal_moves_filter[OF ex_castle_wf])
qed




section \<open>Distinct Zobrist keys\<close>







section \<open>Boards showing the same position\<close>

lemma same_pos_refl [simp]: "same_pos b b"
  by (simp add: same_pos_def)

lemma same_pos_sym: "same_pos b c \<Longrightarrow> same_pos c b"
  by (simp add: same_pos_def)

lemma same_pos_trans: "same_pos b c \<Longrightarrow> same_pos c d \<Longrightarrow> same_pos b d"
  by (simp add: same_pos_def)

lemma same_core_pos: "same_core b c \<Longrightarrow> same_pos b c"
  by (simp add: same_pos_def same_core_def)

lemma same_pos_make:
  assumes "same_pos b c"
  shows "same_pos (fst (make_move b m)) (fst (make_move c m))"
proof -
  from assms have e: "board b = board c" "side b = side c" "castling b = castling c"
    "ep_square b = ep_square c" "king_sq b = king_sq c"
    by (simp_all add: same_pos_def)
  show ?thesis
    unfolding same_pos_def
    by (simp add: make_move_board make_move_side make_move_castling make_move_ep
        make_move_king_sq mm_castle_rook_board e)
qed

lemma same_pos_wf: "same_pos b c \<Longrightarrow> wf_board b = wf_board c"
  by (simp add: same_pos_def wf_board_def)

lemma same_pos_pseudo_ok: "same_pos b c \<Longrightarrow> pseudo_ok b m = pseudo_ok c m"
  by (simp add: same_pos_def pseudo_ok_def ok_plain_def ok_double_def ok_ep_def ok_castle_def
      pawn_dir_def pawn_start_rank_def)

lemma same_pos_is_attacked: "same_pos b c \<Longrightarrow> is_attacked b sq s = is_attacked c sq s"
  by (simp add: same_pos_def is_attacked_def)

lemma same_pos_in_check: "same_pos b c \<Longrightarrow> in_check b = in_check c"
  by (simp add: same_pos_def in_check_def is_attacked_def)

lemma same_pos_legal_test:
  assumes "same_pos b c" shows "legal_test b m = legal_test c m"
proof -
  have s: "same_pos (fst (make_move b m)) (fst (make_move c m))"
    by (rule same_pos_make[OF assms])
  then have "king_sq (fst (make_move b m)) = king_sq (fst (make_move c m))"
    "side (fst (make_move b m)) = side (fst (make_move c m))"
    by (simp_all add: same_pos_def)
  then show ?thesis
    unfolding legal_test_def using same_pos_is_attacked[OF s] by simp
qed

lemma slide_moves_cong:
  "board b = board c \<Longrightarrow> side b = side c \<Longrightarrow> slide_moves b sq d t = slide_moves c sq d t"
proof (induction b sq d t rule: slide_moves.induct)
  case (1 b sq d to)
  show ?case
    by (subst slide_moves.simps, subst slide_moves.simps[of c]) (use 1 in auto)
qed

lemma slide_captures_cong:
  "board b = board c \<Longrightarrow> side b = side c \<Longrightarrow>
   slide_captures b sq d t = slide_captures c sq d t"
proof (induction b sq d t rule: slide_captures.induct)
  case (1 b sq d to)
  show ?case
    by (subst slide_captures.simps, subst slide_captures.simps[of c]) (use 1 in auto)
qed

lemma same_pos_gen_pseudo_moves:
  assumes "same_pos b c" shows "gen_pseudo_moves b = gen_pseudo_moves c"
proof -
  from assms have e: "board b = board c" "side b = side c" "castling b = castling c"
    "ep_square b = ep_square c" "king_sq b = king_sq c"
    by (simp_all add: same_pos_def)
  have p: "pawn_dir b = pawn_dir c" "pawn_start_rank b = pawn_start_rank c"
    "pawn_promo_rank b = pawn_promo_rank c"
    by (simp_all add: pawn_dir_def pawn_start_rank_def pawn_promo_rank_def e)
  have 1: "pawn_forward b = pawn_forward c"
    by (intro ext) (simp add: pawn_forward_def e p cong: if_cong)
  have 2: "pawn_capture b = pawn_capture c"
    by (intro ext) (simp add: pawn_capture_def e p cong: if_cong)
  have 3: "step_moves_from b = step_moves_from c"
    by (intro ext) (simp add: step_moves_from_def e cong: if_cong)
  have 4: "slide_moves b = slide_moves c"
    by (intro ext) (rule slide_moves_cong[OF e(1,2)])
  have 5: "castle_moves b = castle_moves c"
    by (simp add: castle_moves_def e same_pos_is_attacked[OF assms] cong: if_cong)
  show ?thesis
    by (simp add: gen_pseudo_moves_def gen_pawn_moves_def pawn_moves_from_def
        gen_knight_moves_def gen_slider_moves_def gen_king_moves_def e p 1 2 3 4 5 cong: if_cong)
qed

lemma same_pos_gen_captures:
  assumes "same_pos b c" shows "gen_captures b = gen_captures c"
proof -
  from assms have e: "board b = board c" "side b = side c" "castling b = castling c"
    "ep_square b = ep_square c" "king_sq b = king_sq c"
    by (simp_all add: same_pos_def)
  have p: "pawn_dir b = pawn_dir c" "pawn_start_rank b = pawn_start_rank c"
    "pawn_promo_rank b = pawn_promo_rank c"
    by (simp_all add: pawn_dir_def pawn_start_rank_def pawn_promo_rank_def e)
  have 1: "pawn_push_promotion b = pawn_push_promotion c"
    by (intro ext) (simp add: pawn_push_promotion_def e p cong: if_cong)
  have 2: "pawn_capture_only b = pawn_capture_only c"
    by (intro ext) (simp add: pawn_capture_only_def e p cong: if_cong)
  have 3: "step_captures_from b = step_captures_from c"
    by (intro ext) (simp add: step_captures_from_def e cong: if_cong)
  have 4: "slide_captures b = slide_captures c"
    by (intro ext) (rule slide_captures_cong[OF e(1,2)])
  show ?thesis
    by (simp add: gen_captures_def gen_pawn_captures_def pawn_captures_from_def
        gen_knight_captures_def gen_slider_captures_def gen_king_captures_def e p 1 2 3 4 cong: if_cong)
qed

lemma same_pos_legal_moves:
  assumes wf: "wf_board b" and s: "same_pos b c"
  shows "fst (gen_legal_moves b) = fst (gen_legal_moves c)"
proof -
  have wfc: "wf_board c" using same_pos_wf[OF s] wf by simp
  have "legal_test b = legal_test c" by (intro ext) (rule same_pos_legal_test[OF s])
  then show ?thesis
    by (simp add: gen_legal_moves_filter(1)[OF wf] gen_legal_moves_filter(1)[OF wfc]
        same_pos_gen_pseudo_moves[OF s])
qed

section \<open>Draw detection and the position history\<close>

lemma make_null_move_fields:
  "board (fst (make_null_move b u)) = board b"
  "side (fst (make_null_move b u)) = side b XOR 1"
  "castling (fst (make_null_move b u)) = castling b"
  "ep_square (fst (make_null_move b u)) = -1"
  "king_sq (fst (make_null_move b u)) = king_sq b"
  "halfmove (fst (make_null_move b u)) = halfmove b"
  "fullmove (fst (make_null_move b u)) = fullmove b"
  "hash (fst (make_null_move b u)) =
     (if ep_square b \<ge> 0 then hash b XOR Z_EP (sq_file (ep_square b)) else hash b) XOR Z_SIDE"
  by (simp_all add: make_null_move_def Let_def)

lemma compute_hash_fields:
  "board (compute_hash b) = board b" "side (compute_hash b) = side b"
  "castling (compute_hash b) = castling b" "ep_square (compute_hash b) = ep_square b"
  "king_sq (compute_hash b) = king_sq b" "halfmove (compute_hash b) = halfmove b"
  "fullmove (compute_hash b) = fullmove b" "pos_history (compute_hash b) = pos_history b"
  "pos_history_count (compute_hash b) = pos_history_count b"
  by (simp_all add: compute_hash_def Let_def)





















section \<open>The incremental hash\<close>

lemmas xor_ac = xor.assoc xor.commute xor.left_commute

lemma zobrist_squares_simps [simp]:
  "zobrist_squares brd [] h = h"
  "zobrist_squares brd (sq # sqs) h = zobrist_squares brd sqs (h XOR zkey (brd ! nat sq) sq)"
  by (simp_all add: zobrist_squares_def)

lemma zobrist_squares_shift:
  "zobrist_squares brd sqs (h XOR x) = zobrist_squares brd sqs h XOR x"
proof (induction sqs arbitrary: h)
  case Nil
  then show ?case by simp
next
  case (Cons sq sqs)
  have "(h XOR x) XOR zkey (brd ! nat sq) sq = (h XOR zkey (brd ! nat sq) sq) XOR x"
    by (simp add: xor_ac)
  then show ?case using Cons.IH[of "h XOR zkey (brd ! nat sq) sq"] by simp
qed

lemma zobrist_squares_update:
  assumes i: "0 \<le> i" "nat i < length brd"
  shows "distinct sqs \<Longrightarrow> (\<forall>sq \<in> set sqs. 0 \<le> sq) \<Longrightarrow>
         zobrist_squares (brd[nat i := v]) sqs h =
         zobrist_squares brd sqs h XOR
           (if i \<in> set sqs then zkey (brd ! nat i) i XOR zkey v i else 0)"
proof (induction sqs arbitrary: h)
  case Nil
  then show ?case by simp
next
  case (Cons sq sqs)
  from Cons.prems have d: "distinct sqs" "\<forall>sq \<in> set sqs. 0 \<le> sq" "sq \<notin> set sqs" "0 \<le> sq"
    by simp_all
  note ih = Cons.IH[OF d(1,2)]
  show ?case
  proof (cases "sq = i")
    case True
    then have ni: "i \<notin> set sqs" using d(3) by simp
    have "zobrist_squares (brd[nat i := v]) (sq # sqs) h =
          zobrist_squares brd sqs (h XOR zkey v i)"
      using i ih[of "h XOR zkey v i"] ni by (simp add: True)
    also have "\<dots> = zobrist_squares brd sqs h XOR zkey v i"
      by (rule zobrist_squares_shift)
    finally have l: "zobrist_squares (brd[nat i := v]) (sq # sqs) h =
          zobrist_squares brd sqs h XOR zkey v i" .
    have "zobrist_squares brd (sq # sqs) h = zobrist_squares brd sqs h XOR zkey (brd ! nat i) i"
      by (simp add: True zobrist_squares_shift)
    then have "zobrist_squares brd (sq # sqs) h XOR (zkey (brd ! nat i) i XOR zkey v i) =
          zobrist_squares brd sqs h XOR zkey v i"
      by (simp only: xor.assoc bit.xor_left_self)
    with l show ?thesis by (simp add: True)
  next
    case False
    then have "nat sq \<noteq> nat i" using d(4) i(1) by simp
    then have "brd[nat i := v] ! nat sq = brd ! nat sq" by simp
    then show ?thesis using ih[of "h XOR zkey (brd ! nat sq) sq"] False by auto
  qed
qed

lemma zobrist_board_update:
  assumes "0 \<le> i" "i < 64" "length brd = 64"
  shows "zobrist_board (brd[nat i := v]) = zobrist_board brd XOR zkey (brd ! nat i) i XOR zkey v i"
proof -
  have "nat i < length brd" using assms by simp
  from zobrist_squares_update[OF assms(1) this, of "[0..63]" v 0] assms
  show ?thesis by (simp add: zobrist_board_def)
qed

lemma compute_hash_hash:
  "hash (compute_hash b) =
     zobrist_board (board b) XOR (if side b = BLACK_SIDE then Z_SIDE else 0) XOR
     Z_CASTLE (castling b) XOR (if ep_square b \<ge> 0 then Z_EP (sq_file (ep_square b)) else 0)"
proof -
  have "(\<lambda>sq h. if board b ! nat sq \<noteq> 0
                 then h XOR Z_PIECE (piece_index (board b ! nat sq)) sq else h) =
        (\<lambda>sq h. h XOR zkey (board b ! nat sq) sq)"
    by (intro ext) (simp add: zkey_def)
  then show ?thesis
    by (simp add: compute_hash_def Let_def zobrist_board_def zobrist_squares_def xor.assoc)
qed

lemma xor_same_cancel:
  fixes a :: "64 word"
  shows "a XOR a XOR b = b" "a XOR b XOR a = b" "a XOR a = 0"
  by (simp_all add: xor_ac)

lemma hash_delta_plain:
  assumes wf: "wf_board b"
    and r: "0 \<le> mfrom m" "mfrom m < 64" "0 \<le> mto m" "mto m < 64" "mfrom m \<noteq> mto m"
    and own: "board b ! nat (mfrom m) \<noteq> 0"
    and ok: "ok_plain b m"
  shows "hash (mm_castle_rook (mm_place (mm_remove_captured
           (mm_lift_piece b m (board b ! nat (mfrom m))) m) m (board b ! nat (mfrom m))) m s)
         XOR zobrist_board (board (fst (make_move b m)))
         = hash b XOR zobrist_board (board b)"
proof -
  define brd where "brd = board b"
  define piece where "piece = brd ! nat (mfrom m)"
  define placed where "placed = (if promotion m \<noteq> 0 then promotion m else piece)"
  have len: "length brd = 64" using wf by (simp add: wf_board_def brd_def)
  have fl: "flags m = 0" and cap: "captured m = brd ! nat (mto m)"
    using ok by (simp_all add: ok_plain_def brd_def)
  have p0: "piece \<noteq> 0" using own by (simp add: piece_def brd_def)
  then have pl0: "placed \<noteq> 0" by (simp add: placed_def)
  have nn: "nat (mfrom m) \<noteq> nat (mto m)" "nat (mfrom m) < 64" "nat (mto m) < 64"
    using r by auto
  have b1: "board (fst (make_move b m)) = brd[nat (mfrom m) := 0, nat (mto m) := placed]"
    by (simp add: make_move_board mm_castle_rook_board fl fl_defs brd_def piece_def placed_def)
  have h1: "hash (mm_castle_rook (mm_place (mm_remove_captured
           (mm_lift_piece b m (board b ! nat (mfrom m))) m) m (board b ! nat (mfrom m))) m s)
       = hash b XOR zkey piece (mfrom m) XOR zkey (brd ! nat (mto m)) (mto m)
           XOR zkey placed (mto m)"
    using p0 pl0
    by (simp add: mm_castle_rook_hash fl fl_defs brd_def[symmetric] piece_def[symmetric]
        placed_def[symmetric] cap zkey_def xor_ac)
  have z: "zobrist_board (brd[nat (mfrom m) := 0, nat (mto m) := placed]) =
           zobrist_board brd XOR zkey piece (mfrom m) XOR zkey (brd ! nat (mto m)) (mto m)
             XOR zkey placed (mto m)"
    using nn len r
    by (simp add: zobrist_board_update piece_def zkey_def[of 0] xor_ac)
  show ?thesis
    unfolding h1 b1 z
    by (simp add: xor_ac xor_same_cancel brd_def)
qed

lemma hash_delta_double:
  assumes wf: "wf_board b"
    and r: "0 \<le> mfrom m" "mfrom m < 64" "0 \<le> mto m" "mto m < 64" "mfrom m \<noteq> mto m"
    and own: "board b ! nat (mfrom m) \<noteq> 0"
    and ok: "ok_double b m"
  shows "hash (mm_castle_rook (mm_place (mm_remove_captured
           (mm_lift_piece b m (board b ! nat (mfrom m))) m) m (board b ! nat (mfrom m))) m s)
         XOR zobrist_board (board (fst (make_move b m)))
         = hash b XOR zobrist_board (board b)"
proof -
  define brd where "brd = board b"
  define piece where "piece = brd ! nat (mfrom m)"
  have len: "length brd = 64" using wf by (simp add: wf_board_def brd_def)
  have fl: "flags m = 4" and cap: "captured m = 0" and pr: "promotion m = 0"
    and e: "brd ! nat (mto m) = 0"
    using ok unfolding ok_double_def brd_def fl_defs by blast+
  have p0: "piece \<noteq> 0" using own by (simp add: piece_def brd_def)
  have nn: "nat (mfrom m) \<noteq> nat (mto m)" "nat (mfrom m) < 64" "nat (mto m) < 64"
    using r by auto
  have b1: "board (fst (make_move b m)) = brd[nat (mfrom m) := 0, nat (mto m) := piece]"
    by (simp add: make_move_board mm_castle_rook_board fl fl_defs brd_def piece_def cap pr)
  have h1: "hash (mm_castle_rook (mm_place (mm_remove_captured
           (mm_lift_piece b m (board b ! nat (mfrom m))) m) m (board b ! nat (mfrom m))) m s)
       = hash b XOR zkey piece (mfrom m) XOR zkey piece (mto m)"
    using p0
    by (simp add: mm_castle_rook_hash fl fl_defs brd_def[symmetric] piece_def[symmetric]
        cap pr zkey_def xor_ac)
  have z: "zobrist_board (brd[nat (mfrom m) := 0, nat (mto m) := piece]) =
           zobrist_board brd XOR zkey piece (mfrom m) XOR zkey piece (mto m)"
    using nn len r e
    by (simp add: zobrist_board_update piece_def zkey_def[of 0] xor_ac)
  show ?thesis
    unfolding h1 b1 z
    by (simp add: xor_ac xor_same_cancel brd_def)
qed

lemma hash_delta_ep:
  assumes wf: "wf_board b"
    and r: "0 \<le> mfrom m" "mfrom m < 64" "0 \<le> mto m" "mto m < 64" "mfrom m \<noteq> mto m"
    and own: "board b ! nat (mfrom m) \<noteq> 0"
    and ok: "ok_ep b m"
  shows "hash (mm_castle_rook (mm_place (mm_remove_captured
           (mm_lift_piece b m (board b ! nat (mfrom m))) m) m (board b ! nat (mfrom m))) m s)
         XOR zobrist_board (board (fst (make_move b m)))
         = hash b XOR zobrist_board (board b)"
proof -
  define brd where "brd = board b"
  define piece where "piece = brd ! nat (mfrom m)"
  define cs where "cs = mto m - pawn_dir b"
  have len: "length brd = 64" using wf by (simp add: wf_board_def brd_def)
  have fl: "flags m = 2" and cap: "captured m = - piece_sign (side b) * PT_PAWN"
    and pr: "promotion m = 0" and to: "mto m = ep_square b"
    and ms: "make_sq (sq_file (mto m)) (sq_rank (mfrom m)) = cs" and fc: "mfrom m \<noteq> cs"
    using ok unfolding ok_ep_def fl_defs cs_def by blast+
  have epn: "ep_square b \<noteq> -1" using to r by auto
  note e = wf_ep[OF wf epn, folded to, folded cs_def brd_def]
  have c0: "captured m \<noteq> 0" by (simp add: cap piece_sign_def PT_PAWN_def)
  have p0: "piece \<noteq> 0" using own by (simp add: piece_def brd_def)
  have tc: "mto m \<noteq> cs" by (auto simp: cs_def pawn_dir_def)
  have nn: "nat (mfrom m) \<noteq> nat (mto m)" "nat (mfrom m) < 64" "nat (mto m) < 64"
    "nat cs < 64" "nat cs \<noteq> nat (mto m)" "nat cs \<noteq> nat (mfrom m)"
    using r e(1,2) tc fc by auto
  have b1: "board (fst (make_move b m)) = brd[nat (mfrom m) := 0, nat cs := 0, nat (mto m) := piece]"
    using c0 by (simp add: make_move_board mm_castle_rook_board fl fl_defs brd_def piece_def pr ms)
  have h1: "hash (mm_castle_rook (mm_place (mm_remove_captured
           (mm_lift_piece b m (board b ! nat (mfrom m))) m) m (board b ! nat (mfrom m))) m s)
       = hash b XOR zkey piece (mfrom m) XOR zkey (captured m) cs XOR zkey piece (mto m)"
    using p0 c0
    by (simp add: mm_castle_rook_hash fl fl_defs brd_def[symmetric] piece_def[symmetric]
        pr ms zkey_def xor_ac)
  have z: "zobrist_board (brd[nat (mfrom m) := 0, nat cs := 0, nat (mto m) := piece]) =
           zobrist_board brd XOR zkey piece (mfrom m) XOR zkey (captured m) cs
             XOR zkey piece (mto m)"
    using nn len r e
    by (simp add: zobrist_board_update piece_def zkey_def[of 0] xor_ac cap)
  show ?thesis
    unfolding h1 b1 z
    by (simp add: xor_ac xor_same_cancel brd_def)
qed

lemma hash_delta_castle:
  assumes wf: "wf_board b" and ok: "ok_castle b m"
    and s: "s = piece_side (board b ! nat (mfrom m))"
  shows "hash (mm_castle_rook (mm_place (mm_remove_captured
           (mm_lift_piece b m (board b ! nat (mfrom m))) m) m (board b ! nat (mfrom m))) m s)
         XOR zobrist_board (board (fst (make_move b m)))
         = hash b XOR zobrist_board (board b)"
proof -
  define brd where "brd = board b"
  have len: "length brd = 64" using wf by (simp add: wf_board_def brd_def)
  have fl: "flags m = 1" and cap: "captured m = 0" and pr: "promotion m = 0"
    using ok unfolding ok_castle_def fl_defs by blast+
  note c = wf_castle[OF wf, folded brd_def]
  have zk: "zkey 0 sq = 0" "zkey 6 sq = Z_PIECE (piece_index 6) sq"
    "zkey 4 sq = Z_PIECE (piece_index 4) sq" "zkey (-6) sq = Z_PIECE (piece_index (-6)) sq"
    "zkey (-4) sq = Z_PIECE (piece_index (-4)) sq" for sq
    by (simp_all add: zkey_def)
  from ok consider
      (wk) "side b = 0" "mfrom m = 4" "mto m = 6" "castling b AND 1 \<noteq> 0" "brd ! 5 = 0" "brd ! 6 = 0"
    | (wq) "side b = 0" "mfrom m = 4" "mto m = 2" "castling b AND 2 \<noteq> 0" "brd ! 3 = 0" "brd ! 2 = 0"
    | (bk) "side b = 1" "mfrom m = 60" "mto m = 62" "castling b AND 4 \<noteq> 0" "brd ! 61 = 0" "brd ! 62 = 0"
    | (bq) "side b = 1" "mfrom m = 60" "mto m = 58" "castling b AND 8 \<noteq> 0" "brd ! 59 = 0" "brd ! 58 = 0"
    unfolding ok_castle_def WHITE_SIDE_def BLACK_SIDE_def brd_def by blast
  then show ?thesis
  proof cases
    case wk
    from c(1)[OF wk(4)] have k: "brd ! 4 = 6" "brd ! 7 = 4" by auto
    have b1: "board (fst (make_move b m)) = brd[4 := 0, 6 := 6, 7 := 0, 5 := 4]"
      by (simp add: make_move_board mm_castle_rook_board fl fl_defs brd_def[symmetric] cap pr wk k
          sq_consts piece_side_def piece_sign_def PT_ROOK_def)
    have h1: "hash (mm_castle_rook (mm_place (mm_remove_captured
           (mm_lift_piece b m (board b ! nat (mfrom m))) m) m (board b ! nat (mfrom m))) m s)
       = hash b XOR zkey 6 4 XOR zkey 6 6 XOR zkey 4 7 XOR zkey 4 5"
      by (simp add: mm_castle_rook_hash fl fl_defs brd_def[symmetric] cap pr wk k s zk
          sq_consts piece_side_def piece_sign_def PT_ROOK_def xor_ac)
    have z: "zobrist_board (brd[4 := 0, 6 := 6, 7 := 0, 5 := 4]) =
             zobrist_board brd XOR zkey 6 4 XOR zkey 6 6 XOR zkey 4 7 XOR zkey 4 5"
      using zobrist_board_update[of 4 brd 0] zobrist_board_update[of 6 "brd[4 := 0]" 6]
        zobrist_board_update[of 7 "brd[4 := 0, 6 := 6]" 0]
        zobrist_board_update[of 5 "brd[4 := 0, 6 := 6, 7 := 0]" 4] len k wk(5,6)
      by (simp add: zk(1) xor_ac)
    show ?thesis unfolding h1 b1 z by (simp add: xor_ac xor_same_cancel brd_def)
  next
    case wq
    from c(2)[OF wq(4)] have k: "brd ! 4 = 6" "brd ! 0 = 4" by auto
    have b1: "board (fst (make_move b m)) = brd[4 := 0, 2 := 6, 0 := 0, 3 := 4]"
      by (simp add: make_move_board mm_castle_rook_board fl fl_defs brd_def[symmetric] cap pr wq k
          sq_consts piece_side_def piece_sign_def PT_ROOK_def)
    have h1: "hash (mm_castle_rook (mm_place (mm_remove_captured
           (mm_lift_piece b m (board b ! nat (mfrom m))) m) m (board b ! nat (mfrom m))) m s)
       = hash b XOR zkey 6 4 XOR zkey 6 2 XOR zkey 4 0 XOR zkey 4 3"
      by (simp add: mm_castle_rook_hash fl fl_defs brd_def[symmetric] cap pr wq k s zk
          sq_consts piece_side_def piece_sign_def PT_ROOK_def xor_ac)
    have z: "zobrist_board (brd[4 := 0, 2 := 6, 0 := 0, 3 := 4]) =
             zobrist_board brd XOR zkey 6 4 XOR zkey 6 2 XOR zkey 4 0 XOR zkey 4 3"
      using zobrist_board_update[of 4 brd 0] zobrist_board_update[of 2 "brd[4 := 0]" 6]
        zobrist_board_update[of 0 "brd[4 := 0, 2 := 6]" 0]
        zobrist_board_update[of 3 "brd[4 := 0, 2 := 6, 0 := 0]" 4] len k wq(5,6)
      by (simp add: zk(1) xor_ac)
    show ?thesis unfolding h1 b1 z by (simp add: xor_ac xor_same_cancel brd_def)
  next
    case bk
    from c(3)[OF bk(4)] have k: "brd ! 60 = -6" "brd ! 63 = -4" by auto
    have b1: "board (fst (make_move b m)) = brd[60 := 0, 62 := -6, 63 := 0, 61 := -4]"
      by (simp add: make_move_board mm_castle_rook_board fl fl_defs brd_def[symmetric] cap pr bk k
          sq_consts piece_side_def piece_sign_def PT_ROOK_def WHITE_SIDE_def BLACK_SIDE_def)
    have h1: "hash (mm_castle_rook (mm_place (mm_remove_captured
           (mm_lift_piece b m (board b ! nat (mfrom m))) m) m (board b ! nat (mfrom m))) m s)
       = hash b XOR zkey (-6) 60 XOR zkey (-6) 62 XOR zkey (-4) 63 XOR zkey (-4) 61"
      by (simp add: mm_castle_rook_hash fl fl_defs brd_def[symmetric] cap pr bk k s zk
          sq_consts piece_side_def piece_sign_def PT_ROOK_def WHITE_SIDE_def BLACK_SIDE_def xor_ac)
    have z: "zobrist_board (brd[60 := 0, 62 := -6, 63 := 0, 61 := -4]) =
             zobrist_board brd XOR zkey (-6) 60 XOR zkey (-6) 62 XOR zkey (-4) 63 XOR zkey (-4) 61"
      using zobrist_board_update[of 60 brd 0] zobrist_board_update[of 62 "brd[60 := 0]" "-6"]
        zobrist_board_update[of 63 "brd[60 := 0, 62 := -6]" 0]
        zobrist_board_update[of 61 "brd[60 := 0, 62 := -6, 63 := 0]" "-4"] len k bk(5,6)
      by (simp add: zk(1) xor_ac)
    show ?thesis unfolding h1 b1 z by (simp add: xor_ac xor_same_cancel brd_def)
  next
    case bq
    from c(4)[OF bq(4)] have k: "brd ! 60 = -6" "brd ! 56 = -4" by auto
    have b1: "board (fst (make_move b m)) = brd[60 := 0, 58 := -6, 56 := 0, 59 := -4]"
      by (simp add: make_move_board mm_castle_rook_board fl fl_defs brd_def[symmetric] cap pr bq k
          sq_consts piece_side_def piece_sign_def PT_ROOK_def WHITE_SIDE_def BLACK_SIDE_def)
    have h1: "hash (mm_castle_rook (mm_place (mm_remove_captured
           (mm_lift_piece b m (board b ! nat (mfrom m))) m) m (board b ! nat (mfrom m))) m s)
       = hash b XOR zkey (-6) 60 XOR zkey (-6) 58 XOR zkey (-4) 56 XOR zkey (-4) 59"
      by (simp add: mm_castle_rook_hash fl fl_defs brd_def[symmetric] cap pr bq k s zk
          sq_consts piece_side_def piece_sign_def PT_ROOK_def WHITE_SIDE_def BLACK_SIDE_def xor_ac)
    have z: "zobrist_board (brd[60 := 0, 58 := -6, 56 := 0, 59 := -4]) =
             zobrist_board brd XOR zkey (-6) 60 XOR zkey (-6) 58 XOR zkey (-4) 56 XOR zkey (-4) 59"
      using zobrist_board_update[of 60 brd 0] zobrist_board_update[of 58 "brd[60 := 0]" "-6"]
        zobrist_board_update[of 56 "brd[60 := 0, 58 := -6]" 0]
        zobrist_board_update[of 59 "brd[60 := 0, 58 := -6, 56 := 0]" "-4"] len k bq(5,6)
      by (simp add: zk(1) xor_ac)
    show ?thesis unfolding h1 b1 z by (simp add: xor_ac xor_same_cancel brd_def)
  qed
qed

lemma hash_delta:
  assumes wf: "wf_board b" and ok: "pseudo_ok b m"
  shows "hash (mm_castle_rook (mm_place (mm_remove_captured
           (mm_lift_piece b m (board b ! nat (mfrom m))) m) m (board b ! nat (mfrom m))) m
           (piece_side (board b ! nat (mfrom m))))
         XOR zobrist_board (board (fst (make_move b m)))
         = hash b XOR zobrist_board (board b)"
proof -
  from ok have r: "0 \<le> mfrom m" "mfrom m < 64" "0 \<le> mto m" "mto m < 64" "mfrom m \<noteq> mto m"
    and own: "board b ! nat (mfrom m) \<noteq> 0"
    and k: "ok_plain b m \<or> ok_double b m \<or> ok_ep b m \<or> ok_castle b m"
    unfolding pseudo_ok_def by blast+
  from k show ?thesis
    using hash_delta_plain[OF wf r own] hash_delta_double[OF wf r own]
      hash_delta_ep[OF wf r own] hash_delta_castle[OF wf _ refl]
    by blast
qed

lemma make_move_hash_consistent:
  assumes wf: "wf_board b" and ok: "pseudo_ok b m"
    and h: "hash b = hash (compute_hash b)"
  shows "hash (fst (make_move b m)) = hash (compute_hash (fst (make_move b m)))"
proof -
  define X where "X = mm_castle_rook (mm_place (mm_remove_captured
           (mm_lift_piece b m (board b ! nat (mfrom m))) m) m (board b ! nat (mfrom m))) m
           (piece_side (board b ! nat (mfrom m)))"
  define pt where "pt = piece_type (board b ! nat (mfrom m))"
  define c' where "c' = mm_new_castling (castling b) m pt (piece_side (board b ! nat (mfrom m)))"
  define dbl where "dbl \<longleftrightarrow> flags m AND FL_DOUBLE \<noteq> 0 \<and> pt = PT_PAWN"
  define zb where "zb = zobrist_board (board b)"
  define zb' where "zb' = zobrist_board (board (fst (make_move b m)))"
  define eo where "eo = (if ep_square b \<ge> 0 then Z_EP (sq_file (ep_square b)) else 0)"
  define en where "en = (if dbl then Z_EP (sq_file ((mfrom m + mto m) div 2)) else 0)"
  from ok have r: "0 \<le> mfrom m" "0 \<le> mto m" unfolding pseudo_ok_def by blast+
  have d: "hash X XOR zb' = hash b XOR zb"
    unfolding X_def zb_def zb'_def by (rule hash_delta[OF wf ok])
  have hx: "hash X = hash b XOR zb XOR zb'"
  proof -
    have "hash X = (hash X XOR zb') XOR zb'" by (simp add: xor_ac xor_same_cancel)
    then show ?thesis unfolding d by (simp add: xor_ac)
  qed
  have xf: "castling X = castling b" "ep_square X = ep_square b"
    unfolding X_def by simp_all
  have hn: "hash (fst (make_move b m)) =
              hash X XOR Z_CASTLE (castling b) XOR Z_CASTLE c' XOR eo XOR en XOR Z_SIDE"
    unfolding make_move_hash X_def[symmetric] pt_def[symmetric]
    by (simp add: mm_en_passant_hash Let_def xf c'_def eo_def en_def dbl_def xor_ac)
  have hb: "hash b = zb XOR (if side b = BLACK_SIDE then Z_SIDE else 0) XOR
              Z_CASTLE (castling b) XOR eo"
    using h unfolding compute_hash_hash zb_def eo_def .
  have sd: "side b = 0 \<or> side b = 1" by (rule wf_side[OF wf])
  have s': "(if side (fst (make_move b m)) = BLACK_SIDE then Z_SIDE else 0) =
            (if side b = BLACK_SIDE then Z_SIDE else 0) XOR Z_SIDE"
    using sd by (auto simp: make_move_side BLACK_SIDE_def)
  have e': "(if ep_square (fst (make_move b m)) \<ge> 0
             then Z_EP (sq_file (ep_square (fst (make_move b m)))) else 0) = en"
    using r by (simp add: make_move_ep en_def dbl_def pt_def)
  have "hash (compute_hash (fst (make_move b m))) =
          zb' XOR ((if side b = BLACK_SIDE then Z_SIDE else 0) XOR Z_SIDE) XOR Z_CASTLE c' XOR en"
    unfolding compute_hash_hash s' e' zb'_def make_move_castling c'_def pt_def ..
  moreover have "hash (fst (make_move b m)) =
          zb' XOR ((if side b = BLACK_SIDE then Z_SIDE else 0) XOR Z_SIDE) XOR Z_CASTLE c' XOR en"
    unfolding hn hx
    by (subst hb) (simp add: xor_ac xor_same_cancel)
  ultimately show ?thesis by simp
qed

text \<open>
  Claim C3. On a well-formed board whose \<open>hash\<close> field equals the hash computed from
  scratch, \<open>make_move\<close> of a legal move leaves in \<open>hash\<close> the hash computed from scratch
  over the new board: the fold of the piece-square keys over the non-empty squares, the
  side key when black is to move, the key of the castling mask, and the en-passant file
  key when \<open>ep_square\<close> is set.
\<close>

theorem incremental_hash_spec:
  assumes "wf_board b" and "hash b = hash (compute_hash b)"
    and "m \<in> set (fst (gen_legal_moves b))"
  shows "hash (fst (make_move b m)) = hash (compute_hash (fst (make_move b m))) \<and>
         hash (fst (make_move b m)) =
           fold (\<lambda>sq h. if board (fst (make_move b m)) ! nat sq \<noteq> 0
                         then h XOR Z_PIECE (piece_index (board (fst (make_move b m)) ! nat sq)) sq
                         else h) [0..63] 0
           XOR (if side (fst (make_move b m)) = BLACK_SIDE then Z_SIDE else 0)
           XOR Z_CASTLE (castling (fst (make_move b m)))
           XOR (if ep_square (fst (make_move b m)) \<ge> 0
                then Z_EP (sq_file (ep_square (fst (make_move b m)))) else 0)"
proof -
  have ok: "pseudo_ok b m" by (rule legal_is_pseudo_ok[OF assms(1) assms(3)])
  have 1: "hash (fst (make_move b m)) = hash (compute_hash (fst (make_move b m)))"
    by (rule make_move_hash_consistent[OF assms(1) ok assms(2)])
  have "hash (compute_hash c) =
           fold (\<lambda>sq h. if board c ! nat sq \<noteq> 0
                         then h XOR Z_PIECE (piece_index (board c ! nat sq)) sq else h) [0..63] 0
           XOR (if side c = BLACK_SIDE then Z_SIDE else 0)
           XOR Z_CASTLE (castling c)
           XOR (if ep_square c \<ge> 0 then Z_EP (sq_file (ep_square c)) else 0)" for c
    by (simp add: compute_hash_def Let_def xor_ac)
  with 1 show ?thesis by simp
qed

theorem incremental_hash_spec_witness:
  "wf_board (compute_hash ex_castle_board) \<and>
   hash (compute_hash ex_castle_board) = hash (compute_hash (compute_hash ex_castle_board)) \<and>
   mk_move 4 6 0 0 FL_CASTLE \<in> set (fst (gen_legal_moves (compute_hash ex_castle_board))) \<and>
   hash (fst (make_move (compute_hash ex_castle_board) (mk_move 4 6 0 0 FL_CASTLE))) =
     hash (compute_hash (fst (make_move (compute_hash ex_castle_board)
                                        (mk_move 4 6 0 0 FL_CASTLE))))"
proof -
  have sp: "same_pos (compute_hash ex_castle_board) ex_castle_board"
    by (simp add: same_pos_def compute_hash_fields)
  have wf: "wf_board (compute_hash ex_castle_board)"
    using same_pos_wf[OF sp] ex_castle_wf by simp
  have h: "hash (compute_hash ex_castle_board) =
           hash (compute_hash (compute_hash ex_castle_board))"
    by (simp add: compute_hash_hash compute_hash_fields)
  have l: "mk_move 4 6 0 0 FL_CASTLE \<in> set (fst (gen_legal_moves (compute_hash ex_castle_board)))"
    using same_pos_legal_moves[OF wf sp] ex_castle_legal by simp
  from incremental_hash_spec[OF wf h l] wf h l show ?thesis by blast
qed

section \<open>Alpha-beta on a position without legal moves\<close>

lemma alphabeta_0: "alphabeta 0 clk s b depth alpha beta ply null_ok = None"
  and alphabeta_Suc:
    "alphabeta (Suc f) = alphabeta_body (quiescence f) (alphabeta f) (ab_loop f)"
  and ab_loop_Suc: "ab_loop (Suc f) = ab_loop_body (alphabeta f) (ab_loop f)"
  by (simp_all add: alphabeta_def ab_loop_def)

lemma quiescence_0: "quiescence 0 clk s b alpha beta ply = None"
  and q_loop_0: "q_loop 0 clk s b moves scores i alpha beta ply = None"
  and quiescence_Suc: "quiescence (Suc f) = quiescence_body (q_loop f)"
  and q_loop_Suc: "q_loop (Suc f) = q_loop_body (quiescence f) (q_loop f)"
  by (simp_all add: quiescence_def q_loop_def)

text \<open>
  \<open>alphabeta\<close> on a node that is neither timed out, a draw, cut off by the table nor a
  leaf, when the move generator finds no legal move after the null-move block.
\<close>

lemma alphabeta_body_no_moves:
  assumes t: "\<not> time_up (count_node clk s)" and d: "\<not> is_draw b"
    and p: "\<not> (fst (tt_probe (count_node clk s) (hash b) depth alpha beta 0 null_Move) \<and> ply > 0)"
    and dp: "1 \<le> depth"
    and nb: "null_move_block rec clk (count_node clk s) b
               (if in_check b then depth + 1 else depth) beta ply null_ok (in_check b)
             = Some (ns, s2, b2)"
    and nm: "fst (gen_legal_moves b2) = []"
  shows "alphabeta_body q rec loop clk s b depth alpha beta ply null_ok =
     (if ns \<noteq> None \<and> time_up s2 then Some (0, s2, b2)
      else if (case ns of Some n \<Rightarrow> n \<ge> beta | None \<Rightarrow> False) then Some (beta, s2, b2)
      else Some (if in_check b then - (MATE_SCORE - ply) else 0, s2, snd (gen_legal_moves b2)))"
proof -
  define s1 where "s1 = count_node clk s"
  define hit where "hit = fst (tt_probe s1 (hash b) depth alpha beta 0 null_Move)"
  have a: "time_up s1 = False" "(hit \<and> 0 < ply) = False" "(depth \<le> 0) = False"
    "is_draw b = False"
    using t p dp d by (simp_all add: s1_def hit_def)
  show ?thesis
    unfolding alphabeta_body_def s1_def[symmetric] Let_def hit_def[symmetric]
    by (simp add: a nb[folded s1_def] nm)
qed

lemma null_move_block_skip:
  "in_chk \<or> \<not> null_ok \<or> depth < 3 \<or> is_endgame b \<Longrightarrow>
   null_move_block rec clk s b depth beta ply null_ok in_chk = Some (None, s, b)"
  by (auto simp: null_move_block_def)

lemma null_move_block_enter:
  assumes "null_ok" "\<not> in_chk" "3 \<le> depth" "\<not> is_endgame b"
    and "rec clk s (fst (make_null_move b UndoInfo_uninit))
           (depth - 1 - (if depth \<ge> 6 then 3 else 2)) (- beta) (- beta + 1) (ply + 1) False
         = Some (r, s2, b2)"
  shows "null_move_block rec clk s b depth beta ply null_ok in_chk =
           Some (Some (- r), s2, unmake_null_move b2 (snd (make_null_move b UndoInfo_uninit)))"
  using assms by (simp add: null_move_block_def Let_def)

lemma same_pos_is_endgame: "same_pos b c \<Longrightarrow> is_endgame b = is_endgame c"
  by (simp add: same_pos_def is_endgame_def)

lemma same_pos_evaluate:
  assumes "same_pos b c" shows "evaluate b = evaluate c"
proof -
  from assms have e: "board b = board c" "king_sq b = king_sq c"
    by (simp_all add: same_pos_def)
  have 1: "eval_piece b = eval_piece c"
    by (intro ext) (simp add: eval_piece_def e cong: if_cong)
  have 2: "eval_passed b = eval_passed c"
    by (intro ext) (simp add: eval_passed_def e cong: if_cong)
  have 3: "eval_rook b = eval_rook c"
    by (intro ext) (simp add: eval_rook_def e cong: if_cong)
  have 4: "king_shield b = king_shield c"
    by (intro ext) (simp add: king_shield_def e cong: if_cong)
  have 5: "eval_king_safety b = eval_king_safety c"
    by (intro ext) (simp add: eval_king_safety_def 4 cong: if_cong)
  show ?thesis
    by (simp add: evaluate_def evaluate_phase_def same_pos_is_endgame[OF assms] 1 2 3 5)
qed

lemma ex_stalemate_same: "same_pos ex_stalemate ex_stalemate_pos"
  by (simp add: same_pos_def ex_stalemate_def compute_hash_fields)

lemma ex_stalemate_facts:
  "wf_board ex_stalemate_pos" "\<not> in_check ex_stalemate_pos" "\<not> is_endgame ex_stalemate_pos"
  "gen_pseudo_moves ex_stalemate_pos =
     [mk_move 56 57 0 0 0, mk_move 56 48 0 0 0, mk_move 56 49 0 0 0]"
  "evaluate (ex_stalemate_pos\<lparr>side := WHITE_SIDE\<rparr>) = 1830"
  by code_simp+

lemma quiet_move_make:
  assumes m: "flags m = 0" "captured m = 0" "promotion m = 0"
  shows "board (fst (make_move b m)) =
           (board b)[nat (mfrom m) := 0, nat (mto m) := board b ! nat (mfrom m)]"
    and "king_sq (fst (make_move b m)) =
           (if piece_type (board b ! nat (mfrom m)) = PT_KING
            then (king_sq b)[nat (piece_side (board b ! nat (mfrom m))) := mto m] else king_sq b)"
  by (simp_all add: make_move_board mm_castle_rook_board make_move_king_sq m fl_defs)

lemma ex_stalemate_no_moves: "fst (gen_legal_moves ex_stalemate_pos) = []"
proof -
  have k: "board ex_stalemate_pos ! 56 = -6" "piece_type (-6) = PT_KING" "piece_side (-6) = 1"
    "side ex_stalemate_pos = 1" "king_sq ex_stalemate_pos = [4, 56]"
    by code_simp+
  have a: "is_attacked (ex_stalemate_pos\<lparr>board := (board ex_stalemate_pos)[56 := 0, 57 := -6]\<rparr>) 57 0"
    "is_attacked (ex_stalemate_pos\<lparr>board := (board ex_stalemate_pos)[56 := 0, 48 := -6]\<rparr>) 48 0"
    "is_attacked (ex_stalemate_pos\<lparr>board := (board ex_stalemate_pos)[56 := 0, 49 := -6]\<rparr>) 49 0"
    by code_simp+
  have l: "\<not> legal_test ex_stalemate_pos (mk_move 56 t 0 0 0)"
    if "t = 57 \<or> t = 48 \<or> t = 49" for t
  proof -
    define m where "m = mk_move 56 t 0 0 0"
    have f: "flags m = 0" "captured m = 0" "promotion m = 0" "mfrom m = 56" "mto m = t"
      using that by (auto simp: m_def u8_id)
    show ?thesis
      unfolding m_def[symmetric] legal_test_board quiet_move_make[OF f(1,2,3)] f
      using that a by (auto simp: k)
  qed
  show ?thesis
    by (simp add: gen_legal_moves_filter(1)[OF ex_stalemate_facts(1)] ex_stalemate_facts(4) l)
qed

lemma alphabeta_body_null_cut:
  assumes t: "\<not> time_up (count_node clk s)" and d: "\<not> is_draw b"
    and p: "\<not> (fst (tt_probe (count_node clk s) (hash b) depth alpha beta 0 null_Move) \<and> ply > 0)"
    and dp: "1 \<le> depth"
    and nb: "null_move_block rec clk (count_node clk s) b
               (if in_check b then depth + 1 else depth) beta ply null_ok (in_check b)
             = Some (Some n, s2, b2)"
    and t2: "\<not> time_up s2" and n: "beta \<le> n"
  shows "alphabeta_body q rec loop clk s b depth alpha beta ply null_ok = Some (beta, s2, b2)"
proof -
  define s1 where "s1 = count_node clk s"
  define hit where "hit = fst (tt_probe s1 (hash b) depth alpha beta 0 null_Move)"
  have a: "time_up s1 = False" "(hit \<and> 0 < ply) = False" "(depth \<le> 0) = False"
    "is_draw b = False"
    using t p dp d by (simp_all add: s1_def hit_def)
  show ?thesis
    unfolding alphabeta_body_def s1_def[symmetric] Let_def hit_def[symmetric]
    using t2 n by (simp add: a nb[folded s1_def])
qed

lemma count_node_plain:
  "(nodes s + 1) AND 4095 \<noteq> 0 \<Longrightarrow> count_node clk s = s\<lparr>nodes := nodes s + 1\<rparr>"
  by (simp add: count_node_def Let_def)

lemma is_draw_fresh:
  "halfmove b < 100 \<Longrightarrow> pos_history_count b < 3 \<Longrightarrow> \<not> is_draw b"
  by (simp add: is_draw_def count_repetitions_def count_repetitions_loop.simps)

lemma delta_prune:
  assumes "\<not> time_up (count_node clk s)"
    and "(if side b = BLACK_SIDE then - evaluate b else evaluate b) + BIG_DELTA < alpha"
    and "alpha \<le> beta"
  shows "quiescence (Suc f) clk s b alpha beta ply = Some (alpha, count_node clk s, b)"
proof -
  define sp where "sp = (if side b = BLACK_SIDE then - evaluate b else evaluate b)"
  have "sp + 900 < alpha" using assms(2) by (simp add: sp_def BIG_DELTA_def)
  then have a: "(beta \<le> sp) = False" "(alpha < sp) = False" "sp + BIG_DELTA < alpha"
    using assms(3) by (simp_all add: BIG_DELTA_def)
  show ?thesis
    unfolding quiescence_Suc quiescence_body_def Let_def sp_def[symmetric]
    using assms(1) by (simp add: a)
qed

lemma ex_stalemate_fields:
  "halfmove ex_stalemate = 0" "pos_history_count ex_stalemate = 1" "ep_square ex_stalemate = -1"
  "side ex_stalemate = 1"
  by (simp_all add: ex_stalemate_def compute_hash_fields ex_stalemate_pos_def Board_init_def
      BLACK_SIDE_def)

lemma ex_fresh_probe:
  "tt s' = tt ex_fresh_searcher \<Longrightarrow> tt_mask s' = tt_mask ex_fresh_searcher \<Longrightarrow>
   tt_probe s' key depth alpha beta 0 null_Move =
     (if key = 0 \<and> depth \<le> 0 then (True, 0, null_Move) else (False, 0, null_Move))"
  by (simp add: tt_probe_def Let_def ex_fresh_searcher_def)

text \<open>
  Claim C7 as stated fails on a stalemate that null-move pruning cuts off before the
  moves are generated. On \<open>ex_stalemate\<close> black, to move, is not in check and has no
  legal move; the node is not a draw, the time is not up and the fresh table gives no
  cutoff. Called with depth 3, window \<open>(-5001, -5000)\<close>, ply 1 and \<open>null_ok\<close>, \<open>alphabeta\<close>
  makes the null move, the null search at depth 0 returns 5000 (delta pruning in
  \<open>quiescence\<close>) or 0 (a table hit), the negated score reaches \<open>beta\<close>, and \<open>alphabeta\<close>
  returns \<open>beta = -5000\<close> instead of 0.
\<close>

theorem stalemate_null_move_counterexample:
  "fst (gen_legal_moves ex_stalemate) = [] \<and> \<not> in_check ex_stalemate \<and>
   \<not> is_draw ex_stalemate \<and>
   \<not> time_up (count_node ex_clock ex_fresh_searcher) \<and>
   \<not> fst (tt_probe (count_node ex_clock ex_fresh_searcher) (hash ex_stalemate) 3
            (- 5001) (- 5000) 0 null_Move) \<and>
   map_option fst (alphabeta 3 ex_clock ex_fresh_searcher ex_stalemate 3 (- 5001) (- 5000) 1 True)
     = Some (- 5000)"
proof -
  define b where "b = ex_stalemate"
  define s where "s = ex_fresh_searcher"
  define b1 where "b1 = fst (make_null_move b UndoInfo_uninit)"
  define s1 where "s1 = s\<lparr>nodes := 1\<rparr>"
  define s2 where "s2 = s\<lparr>nodes := 2\<rparr>"
  define s3 where "s3 = s\<lparr>nodes := 3\<rparr>"
  have sp: "same_pos b ex_stalemate_pos" unfolding b_def by (rule ex_stalemate_same)
  have wf: "wf_board b" using same_pos_wf[OF sp] ex_stalemate_facts(1) by simp
  have nm: "fst (gen_legal_moves b) = []"
    using same_pos_legal_moves[OF wf sp] ex_stalemate_no_moves by simp
  have ic: "\<not> in_check b" using same_pos_in_check[OF sp] ex_stalemate_facts(2) by simp
  have eg: "\<not> is_endgame b" using same_pos_is_endgame[OF sp] ex_stalemate_facts(3) by simp
  have dr: "\<not> is_draw b"
    unfolding b_def by (rule is_draw_fresh) (simp_all add: ex_stalemate_fields)
  have c1: "count_node ex_clock s = s1" "count_node ex_clock s1 = s2"
    "count_node ex_clock s2 = s3"
    by (simp_all add: count_node_plain s_def s1_def s2_def s3_def ex_fresh_searcher_def)
  have tu: "\<not> time_up s1" "\<not> time_up s2" "\<not> time_up s3"
    "\<not> time_up (s2\<lparr>tt_hits := tt_hits s2 + 1\<rparr>)"
    by (simp_all add: s_def s1_def s2_def s3_def ex_fresh_searcher_def)
  have tt: "tt s1 = tt ex_fresh_searcher" "tt_mask s1 = tt_mask ex_fresh_searcher"
    "tt s2 = tt ex_fresh_searcher" "tt_mask s2 = tt_mask ex_fresh_searcher"
    by (simp_all add: s_def s1_def s2_def)
  have p1: "\<not> fst (tt_probe s1 (hash b) 3 (- 5001) (- 5000) 0 null_Move)"
    by (simp add: ex_fresh_probe[OF tt(1,2)])
  have b1f: "halfmove b1 = 0" "pos_history_count b1 = 1" "side b1 = 0"
    unfolding b1_def b_def
    by (simp_all add: make_null_move_fields null_move_history ex_stalemate_fields)
  have dr1: "\<not> is_draw b1" by (rule is_draw_fresh) (simp_all add: b1f)
  have sp1: "same_pos b1 (ex_stalemate_pos\<lparr>side := WHITE_SIDE\<rparr>)"
    using sp unfolding b1_def
    by (simp add: same_pos_def make_null_move_fields ex_stalemate_fields b_def WHITE_SIDE_def
        ex_stalemate_pos_def Board_init_def)
  have ev: "evaluate b1 = 1830"
    using same_pos_evaluate[OF sp1] ex_stalemate_facts(5) by simp
  have q: "quiescence (Suc 0) ex_clock s2 b1 5000 5001 2 = Some (5000, s3, b1)"
    using delta_prune[of ex_clock s2 b1 5000 5001 0 2] tu
    by (simp add: c1 ev b1f BLACK_SIDE_def BIG_DELTA_def)
  have child: "\<exists>r s'. alphabeta (Suc (Suc 0)) ex_clock s1 b1 0 5000 5001 2 False
                        = Some (r, s', b1) \<and> \<not> time_up s' \<and> - 5000 \<le> - r"
  proof (cases "hash b1 = 0")
    case True
    have "alphabeta (Suc (Suc 0)) ex_clock s1 b1 0 5000 5001 2 False =
            Some (0, s2\<lparr>tt_hits := tt_hits s2 + 1\<rparr>, b1)"
      unfolding alphabeta_Suc alphabeta_body_def Let_def c1
      using tu dr1 by (simp add: ex_fresh_probe[OF tt(3,4)] True)
    then show ?thesis using tu by simp
  next
    case False
    have "alphabeta (Suc (Suc 0)) ex_clock s1 b1 0 5000 5001 2 False = Some (5000, s3, b1)"
      unfolding alphabeta_Suc alphabeta_body_def Let_def c1
      using tu dr1 q by (simp add: ex_fresh_probe[OF tt(3,4)] False)
    then show ?thesis using tu by simp
  qed
  then obtain r s' where
    ch: "alphabeta (Suc (Suc 0)) ex_clock s1 b1 0 5000 5001 2 False = Some (r, s', b1)"
    and ts: "\<not> time_up s'" and rr: "- 5000 \<le> - r" by blast
  have nb: "null_move_block (alphabeta (Suc (Suc 0))) ex_clock (count_node ex_clock s) b
               (if in_check b then 3 + 1 else 3) (- 5000) 1 True (in_check b)
             = Some (Some (- r), s', unmake_null_move b1 (snd (make_null_move b UndoInfo_uninit)))"
    unfolding c1 using ic eg ch[unfolded b1_def]
    by (simp add: null_move_block_def Let_def b1_def)
  have t1: "\<not> time_up (count_node ex_clock s)" unfolding c1 by (rule tu(1))
  have pp: "\<not> (fst (tt_probe (count_node ex_clock s) (hash b) 3 (- 5001) (- 5000) 0 null_Move)
               \<and> (1::int) > 0)"
    unfolding c1 using p1 by simp
  have n3: "(3::nat) = Suc (Suc (Suc 0))" by simp
  have res: "alphabeta 3 ex_clock s b 3 (- 5001) (- 5000) 1 True =
          Some (- 5000, s', unmake_null_move b1 (snd (make_null_move b UndoInfo_uninit)))"
    unfolding n3 alphabeta_Suc[of "Suc (Suc 0)"]
    by (rule alphabeta_body_null_cut[OF t1 dr pp _ nb ts rr]) simp
  show ?thesis
    using nm ic dr t1 p1 res unfolding b_def s_def c1[unfolded s_def] by simp
qed

lemma plain_move_make:
  assumes m: "flags m = 0" "promotion m = 0"
  shows "board (fst (make_move b m)) =
           (board b)[nat (mfrom m) := 0, nat (mto m) := board b ! nat (mfrom m)]"
    and "king_sq (fst (make_move b m)) =
           (if piece_type (board b ! nat (mfrom m)) = PT_KING
            then (king_sq b)[nat (piece_side (board b ! nat (mfrom m))) := mto m] else king_sq b)"
  by (simp_all add: make_move_board mm_castle_rook_board make_move_king_sq m fl_defs)

lemma ex_mate_facts:
  "wf_board ex_mate_pos" "in_check ex_mate_pos"
  "gen_pseudo_moves ex_mate_pos =
     [mk_move 56 57 0 0 0, mk_move 56 48 0 0 0, mk_move 56 49 5 0 0]"
  "halfmove ex_mate_pos = 0" "pos_history_count ex_mate_pos = 1" "hash ex_mate_pos = 0"
  by code_simp+

lemma ex_mate_no_moves: "fst (gen_legal_moves ex_mate_pos) = []"
proof -
  have k: "board ex_mate_pos ! 56 = -6" "piece_type (-6) = PT_KING" "piece_side (-6) = 1"
    "side ex_mate_pos = 1" "king_sq ex_mate_pos = [42, 56]"
    by code_simp+
  have a: "is_attacked (ex_mate_pos\<lparr>board := (board ex_mate_pos)[56 := 0, 57 := -6]\<rparr>) 57 0"
    "is_attacked (ex_mate_pos\<lparr>board := (board ex_mate_pos)[56 := 0, 48 := -6]\<rparr>) 48 0"
    "is_attacked (ex_mate_pos\<lparr>board := (board ex_mate_pos)[56 := 0, 49 := -6]\<rparr>) 49 0"
    by code_simp+
  have l: "\<not> legal_test ex_mate_pos (mk_move 56 t c 0 0)"
    if "(t = 57 \<and> c = 0) \<or> (t = 48 \<and> c = 0) \<or> (t = 49 \<and> c = 5)" for t c
  proof -
    define m where "m = mk_move 56 t c 0 0"
    have f: "flags m = 0" "promotion m = 0" "mfrom m = 56" "mto m = t"
      using that by (auto simp: m_def u8_id)
    show ?thesis
      unfolding m_def[symmetric] legal_test_board plain_move_make[OF f(1,2)] f
      using that a by (auto simp: k)
  qed
  show ?thesis
    by (simp add: gen_legal_moves_filter(1)[OF ex_mate_facts(1)] ex_mate_facts(3) l)
qed

lemma ex_stalemate_node:
  "fst (gen_legal_moves ex_stalemate) = []" "\<not> in_check ex_stalemate"
  "\<not> is_draw ex_stalemate" "\<not> is_endgame ex_stalemate"
  "\<not> time_up (count_node ex_clock ex_fresh_searcher)"
  "\<not> fst (tt_probe (count_node ex_clock ex_fresh_searcher) (hash ex_stalemate) 3
            alpha beta 0 null_Move)"
proof -
  have wf: "wf_board ex_stalemate"
    using same_pos_wf[OF ex_stalemate_same] ex_stalemate_facts(1) by simp
  show "fst (gen_legal_moves ex_stalemate) = []"
    using same_pos_legal_moves[OF wf ex_stalemate_same] ex_stalemate_no_moves by simp
  show "\<not> in_check ex_stalemate"
    using same_pos_in_check[OF ex_stalemate_same] ex_stalemate_facts(2) by simp
  show "\<not> is_draw ex_stalemate"
    by (rule is_draw_fresh) (simp_all add: ex_stalemate_fields)
  show "\<not> is_endgame ex_stalemate"
    using same_pos_is_endgame[OF ex_stalemate_same] ex_stalemate_facts(3) by simp
  have c: "count_node ex_clock ex_fresh_searcher = ex_fresh_searcher\<lparr>nodes := 1\<rparr>"
    by (simp add: count_node_plain ex_fresh_searcher_def)
  show "\<not> time_up (count_node ex_clock ex_fresh_searcher)"
    unfolding c by (simp add: ex_fresh_searcher_def)
  show "\<not> fst (tt_probe (count_node ex_clock ex_fresh_searcher) (hash ex_stalemate) 3
            alpha beta 0 null_Move)"
    unfolding c by (simp add: ex_fresh_probe)
qed

lemma ex_mate_node:
  "\<not> is_draw ex_mate_pos"
  "\<not> time_up (count_node ex_clock ex_fresh_searcher)"
  "\<not> fst (tt_probe (count_node ex_clock ex_fresh_searcher) (hash ex_mate_pos) 3
            alpha beta 0 null_Move)"
proof -
  show "\<not> is_draw ex_mate_pos"
    by (rule is_draw_fresh) (simp_all add: ex_mate_facts)
  have c: "count_node ex_clock ex_fresh_searcher = ex_fresh_searcher\<lparr>nodes := 1\<rparr>"
    by (simp add: count_node_plain ex_fresh_searcher_def)
  show "\<not> time_up (count_node ex_clock ex_fresh_searcher)"
    unfolding c by (simp add: ex_fresh_searcher_def)
  show "\<not> fst (tt_probe (count_node ex_clock ex_fresh_searcher) (hash ex_mate_pos) 3
            alpha beta 0 null_Move)"
    unfolding c by (simp add: ex_fresh_probe)
qed

text \<open>
  Claim C7, amended. Let \<open>alphabeta\<close> reach a node at depth at least 1 with the time limit
  not expired on entry, not a draw and not cut off by the table. If the null-move block
  is not entered (the side to move is in check, or \<open>null_ok\<close> is false, or the depth is
  below 3, or the position is an endgame) and the position has no legal move,
  \<open>alphabeta\<close> returns \<open>-(MATE_SCORE - ply)\<close> in check and 0 otherwise. If the block is
  entered and its null search returns, \<open>alphabeta\<close> returns 0 when the time expired in
  the null search, \<open>beta\<close> when the negated null score reaches \<open>beta\<close>, and only
  otherwise generates the moves and returns 0 when there is none.
\<close>

theorem alphabeta_no_legal_moves:
  assumes "\<not> time_up (count_node clk s)" and "\<not> is_draw b"
    and "\<not> (fst (tt_probe (count_node clk s) (hash b) depth alpha beta 0 null_Move) \<and> ply > 0)"
    and "1 \<le> depth"
  shows "((in_check b \<or> \<not> null_ok \<or> depth < 3 \<or> is_endgame b) \<and>
          fst (gen_legal_moves b) = [] \<longrightarrow>
          alphabeta (Suc f) clk s b depth alpha beta ply null_ok =
            Some (if in_check b then - (MATE_SCORE - ply) else 0, count_node clk s,
                  snd (gen_legal_moves b))) \<and>
         (\<not> in_check b \<and> null_ok \<and> 3 \<le> depth \<and> \<not> is_endgame b \<and>
          alphabeta f clk (count_node clk s) (fst (make_null_move b UndoInfo_uninit))
            (depth - 1 - (if depth \<ge> 6 then 3 else 2)) (- beta) (- beta + 1) (ply + 1) False
            = Some (r, s2, b2) \<and>
          fst (gen_legal_moves
                 (unmake_null_move b2 (snd (make_null_move b UndoInfo_uninit)))) = [] \<longrightarrow>
          alphabeta (Suc f) clk s b depth alpha beta ply null_ok =
            (if time_up s2
             then Some (0, s2, unmake_null_move b2 (snd (make_null_move b UndoInfo_uninit)))
             else if beta \<le> - r
             then Some (beta, s2, unmake_null_move b2 (snd (make_null_move b UndoInfo_uninit)))
             else Some (0, s2, snd (gen_legal_moves
                    (unmake_null_move b2 (snd (make_null_move b UndoInfo_uninit)))))))"
proof (intro conjI impI)
  assume a: "(in_check b \<or> \<not> null_ok \<or> depth < 3 \<or> is_endgame b) \<and>
             fst (gen_legal_moves b) = []"
  have sk: "in_check b \<or> \<not> null_ok \<or> (if in_check b then depth + 1 else depth) < 3 \<or>
            is_endgame b"
    using a by auto
  have nb: "null_move_block (alphabeta f) clk (count_node clk s) b
              (if in_check b then depth + 1 else depth) beta ply null_ok (in_check b)
            = Some (None, count_node clk s, b)"
    by (rule null_move_block_skip[OF sk])
  have nm: "fst (gen_legal_moves b) = []" using a by simp
  show "alphabeta (Suc f) clk s b depth alpha beta ply null_ok =
            Some (if in_check b then - (MATE_SCORE - ply) else 0, count_node clk s,
                  snd (gen_legal_moves b))"
    unfolding alphabeta_Suc
    using alphabeta_body_no_moves[OF assms nb nm] by simp
next
  assume a: "\<not> in_check b \<and> null_ok \<and> 3 \<le> depth \<and> \<not> is_endgame b \<and>
          alphabeta f clk (count_node clk s) (fst (make_null_move b UndoInfo_uninit))
            (depth - 1 - (if depth \<ge> 6 then 3 else 2)) (- beta) (- beta + 1) (ply + 1) False
            = Some (r, s2, b2) \<and>
          fst (gen_legal_moves
                 (unmake_null_move b2 (snd (make_null_move b UndoInfo_uninit)))) = []"
  then have ic: "\<not> in_check b" and nok: "null_ok" and d3: "3 \<le> depth"
    and eg: "\<not> is_endgame b"
    and ch: "alphabeta f clk (count_node clk s) (fst (make_null_move b UndoInfo_uninit))
            (depth - 1 - (if depth \<ge> 6 then 3 else 2)) (- beta) (- beta + 1) (ply + 1) False
            = Some (r, s2, b2)"
    and nm: "fst (gen_legal_moves
                 (unmake_null_move b2 (snd (make_null_move b UndoInfo_uninit)))) = []"
    by blast+
  have nb: "null_move_block (alphabeta f) clk (count_node clk s) b
              (if in_check b then depth + 1 else depth) beta ply null_ok (in_check b)
            = Some (Some (- r), s2,
                    unmake_null_move b2 (snd (make_null_move b UndoInfo_uninit)))"
    using ic null_move_block_enter[where rec = "alphabeta f", OF nok ic d3 eg ch] by simp
  show "alphabeta (Suc f) clk s b depth alpha beta ply null_ok =
            (if time_up s2
             then Some (0, s2, unmake_null_move b2 (snd (make_null_move b UndoInfo_uninit)))
             else if beta \<le> - r
             then Some (beta, s2, unmake_null_move b2 (snd (make_null_move b UndoInfo_uninit)))
             else Some (0, s2, snd (gen_legal_moves
                    (unmake_null_move b2 (snd (make_null_move b UndoInfo_uninit))))))"
    unfolding alphabeta_Suc
    using alphabeta_body_no_moves[OF assms nb nm] ic by simp
qed

theorem alphabeta_no_legal_moves_witness:
  "\<not> time_up (count_node ex_clock ex_fresh_searcher) \<and> \<not> is_draw ex_mate_pos \<and>
   \<not> fst (tt_probe (count_node ex_clock ex_fresh_searcher) (hash ex_mate_pos) 3
            (- 100) 100 0 null_Move) \<and>
   in_check ex_mate_pos \<and> fst (gen_legal_moves ex_mate_pos) = [] \<and>
   alphabeta (Suc 0) ex_clock ex_fresh_searcher ex_mate_pos 3 (- 100) 100 2 True =
     Some (- (MATE_SCORE - 2), count_node ex_clock ex_fresh_searcher,
           snd (gen_legal_moves ex_mate_pos)) \<and>
   \<not> is_draw ex_stalemate \<and> \<not> in_check ex_stalemate \<and>
   fst (gen_legal_moves ex_stalemate) = [] \<and>
   alphabeta (Suc 0) ex_clock ex_fresh_searcher ex_stalemate 3 (- 100) 100 2 False =
     Some (0, count_node ex_clock ex_fresh_searcher, snd (gen_legal_moves ex_stalemate))"
proof -
  have pm: "\<not> (fst (tt_probe (count_node ex_clock ex_fresh_searcher) (hash ex_mate_pos) 3
            (- 100) 100 0 null_Move) \<and> (2::int) > 0)"
    using ex_mate_node(3) by simp
  have ps: "\<not> (fst (tt_probe (count_node ex_clock ex_fresh_searcher) (hash ex_stalemate) 3
            (- 100) 100 0 null_Move) \<and> (2::int) > 0)"
    using ex_stalemate_node(6) by simp
  have 1: "alphabeta (Suc 0) ex_clock ex_fresh_searcher ex_mate_pos 3 (- 100) 100 2 True =
     Some (- (MATE_SCORE - 2), count_node ex_clock ex_fresh_searcher,
           snd (gen_legal_moves ex_mate_pos))"
    using alphabeta_no_legal_moves[OF ex_mate_node(2) ex_mate_node(1) pm, of True 0]
      ex_mate_facts(2) ex_mate_no_moves by simp
  have 2: "alphabeta (Suc 0) ex_clock ex_fresh_searcher ex_stalemate 3 (- 100) 100 2 False =
     Some (0, count_node ex_clock ex_fresh_searcher, snd (gen_legal_moves ex_stalemate))"
    using alphabeta_no_legal_moves[OF ex_stalemate_node(5) ex_stalemate_node(3) ps, of False 0]
      ex_stalemate_node(1,2) by simp
  show ?thesis
    using 1 2 ex_mate_node ex_mate_facts(2) ex_mate_no_moves ex_stalemate_node(1,2,3) by simp
qed

end
